theory Spec2Isabelle
  imports Main
begin

section \<open>Data model of \<open>plugins/Selenium/selenium_plugin.py\<close>\<close>

text \<open>
  \<open>WebActionType\<close> is the source's enum. The field \<open>WebAction.action\<close> is
  only annotated with that type: Python does not check the annotation when
  \<open>execute_web_action\<close> is called, and the function ends in an \<open>else\<close> branch for
  every value that equals none of the five members. \<open>Foreign v\<close> stands for such a
  value, \<open>v\<close> being what \<open>str\<close> gives for it.
\<close>

datatype WebActionType = CLICK | TYPE_TEXT | TYPE_ENTER | WAIT | NONE

datatype action_value = Member WebActionType | Foreign string

record WebAction =
  action :: action_value
  target :: string
  content :: string
  termination_message :: string

text \<open>
  A \<open>WebElement\<close> is a handle: the session it belongs to and the element id the
  driver gave it. Its text, attributes and visibility are read through the driver.
  \<open>str_WebElement\<close> is what an f-string prints for it.
\<close>

datatype WebElement = WebElement string string

fun str_WebElement :: "WebElement \<Rightarrow> string" where
  "str_WebElement (WebElement session element) =
     ''<selenium.webdriver.remote.webelement.WebElement (session=\"'' @ session
       @ ''\", element=\"'' @ element @ ''\")>''"

fun str_WebActionType :: "WebActionType \<Rightarrow> string" where
  "str_WebActionType CLICK = ''WebActionType.CLICK''"
| "str_WebActionType TYPE_TEXT = ''WebActionType.TYPE_TEXT''"
| "str_WebActionType TYPE_ENTER = ''WebActionType.TYPE_ENTER''"
| "str_WebActionType WAIT = ''WebActionType.WAIT''"
| "str_WebActionType NONE = ''WebActionType.NONE''"

fun str_action_value :: "action_value \<Rightarrow> string" where
  "str_action_value (Member k) = str_WebActionType k"
| "str_action_value (Foreign v) = v"

text \<open>
  The argument of \<open>send_keys\<close>: a text, or \<open>Keys.RETURN\<close> (the code point U+E006,
  which is no 8-bit character).
\<close>

datatype keys = Text string | Keys_RETURN

text \<open>
  The dictionaries built by \<open>match_clickable\<close> and \<open>match_input\<close>: the key
  \<open>idx\<close> and the remaining keys in the order of the source, a value being a string or
  Python's \<open>None\<close>.
\<close>

record element_dict =
  idx :: int
  attrs :: "(string \<times> string option) list"

text \<open>
  Exceptions, by the place that raises them: the \<open>ValueError\<close> of
  \<open>execute_web_action\<close>, the \<open>IndexError\<close> of a list subscript, and whatever a
  call into the browser driver or into the reasoning service raises.
\<close>

datatype exn =
    ValueError string
  | IndexError
  | Raised_by_driver string
  | Raised_by_service string

section \<open>The collaborators\<close>

text \<open>
  The browser driver, the reasoning service and the clock are outside the
  program. Each call is a function of the state of the world \<open>'w\<close> that returns an
  answer, or the message of the exception it raises, and the next state of the world.
  \<open>time_sleep\<close> takes milliseconds (\<open>time.sleep(0.2)\<close> is 200).
\<close>

record 'w env =
  drv_get :: "string \<Rightarrow> 'w \<Rightarrow> (string + unit) \<times> 'w"
  drv_find_element :: "string \<Rightarrow> 'w \<Rightarrow> (string + WebElement) \<times> 'w"
  drv_find_elements :: "string \<Rightarrow> 'w \<Rightarrow> (string + WebElement list) \<times> 'w"
  el_screenshot_as_base64 :: "WebElement \<Rightarrow> 'w \<Rightarrow> (string + string) \<times> 'w"
  el_is_displayed :: "WebElement \<Rightarrow> 'w \<Rightarrow> (string + bool) \<times> 'w"
  el_text :: "WebElement \<Rightarrow> 'w \<Rightarrow> (string + string) \<times> 'w"
  el_get_attribute :: "WebElement \<Rightarrow> string \<Rightarrow> 'w \<Rightarrow> (string + string option) \<times> 'w"
  el_click :: "WebElement \<Rightarrow> 'w \<Rightarrow> (string + unit) \<times> 'w"
  el_send_keys :: "WebElement \<Rightarrow> keys \<Rightarrow> 'w \<Rightarrow> (string + unit) \<times> 'w"
  ai_parse_action :: "string \<Rightarrow> string \<Rightarrow> 'w \<Rightarrow> (string + WebAction) \<times> 'w"
  ai_parse_index :: "string \<Rightarrow> element_dict list \<Rightarrow> 'w \<Rightarrow> (string + int) \<times> 'w"
  time_sleep :: "nat \<Rightarrow> 'w \<Rightarrow> 'w"

text \<open>Every call made to a collaborator is recorded, in the order of the calls.\<close>

datatype event =
    Ev_sleep nat
  | Ev_get string
  | Ev_find_element string
  | Ev_find_elements string
  | Ev_screenshot WebElement
  | Ev_is_displayed WebElement
  | Ev_text WebElement
  | Ev_get_attribute WebElement string
  | Ev_click WebElement
  | Ev_send_keys WebElement keys
  | Ev_parse_action string string
  | Ev_parse_index string "element_dict list"

record 'w machine =
  world :: 'w
  trace :: "event list"

type_synonym ('w, 'a) io = "'w machine \<Rightarrow> (exn + 'a) \<times> 'w machine"

definition ret :: "'a \<Rightarrow> ('w, 'a) io" where
  "ret x s = (Inr x, s)"

definition raise :: "exn \<Rightarrow> ('w, 'a) io" where
  "raise e s = (Inl e, s)"

definition seq :: "('w, 'a) io \<Rightarrow> ('a \<Rightarrow> ('w, 'b) io) \<Rightarrow> ('w, 'b) io" where
  "seq m f s = (case m s of (Inl e, s') \<Rightarrow> (Inl e, s') | (Inr x, s') \<Rightarrow> f x s')"

definition driver_call :: "event \<Rightarrow> ('w \<Rightarrow> (string + 'a) \<times> 'w) \<Rightarrow> ('w, 'a) io" where
  "driver_call ev f s =
     (case f (world s) of
        (Inl m, w') \<Rightarrow> (Inl (Raised_by_driver m), \<lparr>world = w', trace = trace s @ [ev]\<rparr>)
      | (Inr x, w') \<Rightarrow> (Inr x, \<lparr>world = w', trace = trace s @ [ev]\<rparr>))"

definition service_call :: "event \<Rightarrow> ('w \<Rightarrow> (string + 'a) \<times> 'w) \<Rightarrow> ('w, 'a) io" where
  "service_call ev f s =
     (case f (world s) of
        (Inl m, w') \<Rightarrow> (Inl (Raised_by_service m), \<lparr>world = w', trace = trace s @ [ev]\<rparr>)
      | (Inr x, w') \<Rightarrow> (Inr x, \<lparr>world = w', trace = trace s @ [ev]\<rparr>))"

definition sleep :: "'w env \<Rightarrow> nat \<Rightarrow> ('w, unit) io" where
  "sleep E ms s = (Inr (), \<lparr>world = time_sleep E ms (world s), trace = trace s @ [Ev_sleep ms]\<rparr>)"

text \<open>
  The subscript \<open>elements[idx]\<close> of a Python list: an index from \<open>0\<close> up to the
  length reads from the front, an index from minus the length up to \<open>-1\<close> reads from
  the back, every other index raises.
\<close>

definition list_getitem :: "'a list \<Rightarrow> int \<Rightarrow> exn + 'a" where
  "list_getitem xs i =
     (if 0 \<le> i \<and> i < int (length xs) then Inr (xs ! nat i)
      else if - int (length xs) \<le> i \<and> i < 0 then Inr (xs ! nat (int (length xs) + i))
      else Inl IndexError)"

section \<open>The plugin\<close>

text \<open>
  The functions of \<open>SeleniumPlugin\<close>, in the order of the source. The calls of
  \<open>self.logger.info\<close> only write to the log and are left out. The answer of a call
  to the reasoning service is the parsed value, \<open>response.choices[0].message.parsed\<close>.
\<close>

definition open_web_page :: "'w env \<Rightarrow> string \<Rightarrow> ('w, string) io" where
  "open_web_page E url =
     seq (driver_call (Ev_get url) (drv_get E url))
       (\<lambda>_. ret ''Web page opened. You may now perform actions.'')"

definition capture_current_page :: "'w env \<Rightarrow> ('w, string) io" where
  "capture_current_page E =
     seq (driver_call (Ev_find_element ''body'') (drv_find_element E ''body''))
       (\<lambda>body_element.
          driver_call (Ev_screenshot body_element) (el_screenshot_as_base64 E body_element))"

definition get_web_action :: "'w env \<Rightarrow> string \<Rightarrow> ('w, WebAction) io" where
  "get_web_action E objective =
     seq (capture_current_page E)
       (\<lambda>screenshot_b64.
          let image_url = ''data:image/png;base64,'' @ screenshot_b64
          in service_call (Ev_parse_action objective image_url)
               (ai_parse_action E objective image_url))"

definition match_element_idx :: "'w env \<Rightarrow> element_dict list \<Rightarrow> string \<Rightarrow> ('w, int) io" where
  "match_element_idx E elements target_text =
     service_call (Ev_parse_index target_text elements) (ai_parse_index E target_text elements)"

text \<open>
  The list comprehensions of \<open>match_clickable\<close> and \<open>match_input\<close>: \<open>i\<close> is the
  counter of \<open>enumerate\<close>, which advances on every element, and the condition
  \<open>element.is_displayed()\<close> is evaluated before the dictionary of the element.
\<close>

fun clickable_dicts :: "'w env \<Rightarrow> nat \<Rightarrow> WebElement list \<Rightarrow> ('w, element_dict list) io" where
  "clickable_dicts E i [] = ret []"
| "clickable_dicts E i (element # rest) =
     seq (driver_call (Ev_is_displayed element) (el_is_displayed E element))
       (\<lambda>displayed.
          if displayed then
            seq (driver_call (Ev_text element) (el_text E element))
              (\<lambda>t. seq (clickable_dicts E (Suc i) rest)
                (\<lambda>ds. ret (\<lparr>idx = int i, attrs = [(''text'', Some t)]\<rparr> # ds)))
          else clickable_dicts E (Suc i) rest)"

fun input_dicts :: "'w env \<Rightarrow> nat \<Rightarrow> WebElement list \<Rightarrow> ('w, element_dict list) io" where
  "input_dicts E i [] = ret []"
| "input_dicts E i (element # rest) =
     seq (driver_call (Ev_is_displayed element) (el_is_displayed E element))
       (\<lambda>displayed.
          if displayed then
            seq (driver_call (Ev_get_attribute element ''name'')
                   (el_get_attribute E element ''name''))
              (\<lambda>n. seq (driver_call (Ev_get_attribute element ''placeholder'')
                          (el_get_attribute E element ''placeholder''))
                (\<lambda>p. seq (input_dicts E (Suc i) rest)
                  (\<lambda>ds. ret (\<lparr>idx = int i,
                               attrs = [(''name'', n), (''placeholder'', p)]\<rparr> # ds))))
          else input_dicts E (Suc i) rest)"

definition match_clickable :: "'w env \<Rightarrow> WebElement list \<Rightarrow> string \<Rightarrow> ('w, WebElement) io" where
  "match_clickable E elements target_text =
     seq (clickable_dicts E 0 elements)
       (\<lambda>elements_dicts. seq (match_element_idx E elements_dicts target_text)
         (\<lambda>i. case list_getitem elements i of Inl e \<Rightarrow> raise e | Inr el \<Rightarrow> ret el))"

definition match_input :: "'w env \<Rightarrow> WebElement list \<Rightarrow> string \<Rightarrow> ('w, WebElement) io" where
  "match_input E elements target_text =
     seq (input_dicts E 0 elements)
       (\<lambda>elements_dicts. seq (match_element_idx E elements_dicts target_text)
         (\<lambda>i. case list_getitem elements i of Inl e \<Rightarrow> raise e | Inr el \<Rightarrow> ret el))"

definition execute_web_action :: "'w env \<Rightarrow> WebAction \<Rightarrow> ('w, string) io" where
  "execute_web_action E a =
     (if action a = Member CLICK then
        seq (driver_call (Ev_find_elements ''button'') (drv_find_elements E ''button''))
          (\<lambda>buttons. seq (driver_call (Ev_find_elements ''a'') (drv_find_elements E ''a''))
            (\<lambda>anchors. seq (match_clickable E (buttons @ anchors) (target a))
              (\<lambda>element. seq (driver_call (Ev_click element) (el_click E element))
                (\<lambda>_. ret (''Clicked the element: '' @ str_WebElement element)))))
      else if action a = Member TYPE_TEXT then
        seq (driver_call (Ev_find_elements ''input'') (drv_find_elements E ''input''))
          (\<lambda>elements. seq (match_input E elements (target a))
            (\<lambda>element. seq (driver_call (Ev_send_keys element (Text (content a)))
                               (el_send_keys E element (Text (content a))))
              (\<lambda>_. ret (''Typed '' @ [CHR 0x27] @ content a @ [CHR 0x27]
                          @ '' in the input field: '' @ str_WebElement element))))
      else if action a = Member TYPE_ENTER then
        seq (driver_call (Ev_find_elements ''input'') (drv_find_elements E ''input''))
          (\<lambda>elements. seq (match_input E elements (target a))
            (\<lambda>element. seq (driver_call (Ev_send_keys element Keys_RETURN)
                               (el_send_keys E element Keys_RETURN))
              (\<lambda>_. ret (''Pressed Enter in the input field: '' @ str_WebElement element))))
      else if action a = Member WAIT then
        seq (sleep E 3000) (\<lambda>_. ret ''Waiting...'')
      else if action a = Member NONE then
        ret (termination_message a)
      else
        raise (ValueError (''Unsupported action type: '' @ str_action_value (action a))))"

definition max_attempts :: nat where
  "max_attempts = 15"

text \<open>
  One tick: the body of the \<open>while\<close> loop of \<open>perform_web_action\<close> from the
  pause to the call of \<open>execute_web_action\<close>, giving the decision and the message.
\<close>

definition tick :: "'w env \<Rightarrow> string \<Rightarrow> ('w, WebAction \<times> string) io" where
  "tick E action_description =
     seq (sleep E 200)
       (\<lambda>_. seq (get_web_action E action_description)
         (\<lambda>a. seq (execute_web_action E a) (\<lambda>message. ret (a, message))))"

text \<open>
  The \<open>while\<close> loop of \<open>perform_web_action\<close>, entered with the value of
  \<open>current_attempt\<close>. An exception raised in a tick leaves the loop and the
  function: the source has no handler. \<open>done\<close> becomes true only in the tick that
  leaves the loop, with the message replaced by the termination message.
\<close>

function perform_loop :: "'w env \<Rightarrow> string \<Rightarrow> nat \<Rightarrow> ('w, string) io" where
  "perform_loop E action_description current_attempt s =
     (if current_attempt + 1 > max_attempts then
        (Inr ''Max attempts reached. Could not complete the action.'', s)
      else
        case tick E action_description s of
          (Inl e, s') \<Rightarrow> (Inl e, s')
        | (Inr (a, message), s') \<Rightarrow>
            if action a = Member NONE then (Inr (termination_message a), s')
            else perform_loop E action_description (current_attempt + 1) s')"
  by pat_completeness auto
termination
  by (relation "measure (\<lambda>(E, d, n, s). max_attempts - n)") auto

definition perform_web_action :: "'w env \<Rightarrow> string \<Rightarrow> ('w, string) io" where
  "perform_web_action E action_description = perform_loop E action_description 0"

section \<open>Observations on a run\<close>

text \<open>
  The state after \<open>k\<close> ticks that all completed with a decision other than
  \<open>NONE\<close>; there is none when one of them raised or decided \<open>NONE\<close>.
\<close>

fun completed_ticks :: "'w env \<Rightarrow> string \<Rightarrow> nat \<Rightarrow> 'w machine \<Rightarrow> 'w machine option" where
  "completed_ticks E d 0 s = Some s"
| "completed_ticks E d (Suc k) s =
     (case tick E d s of
        (Inl e, s') \<Rightarrow> None
      | (Inr (a, message), s') \<Rightarrow>
          if action a = Member NONE then None else completed_ticks E d k s')"

text \<open>The calls that act on the page: \<open>click\<close> and \<open>send_keys\<close>.\<close>

fun is_action_call :: "event \<Rightarrow> bool" where
  "is_action_call (Ev_click e) = True"
| "is_action_call (Ev_send_keys e k) = True"
| "is_action_call ev = False"

text \<open>The calls that change the browser: the two above and the navigation.\<close>

fun is_mutation :: "event \<Rightarrow> bool" where
  "is_mutation (Ev_get u) = True"
| "is_mutation ev = is_action_call ev"

fun is_decision_call :: "event \<Rightarrow> bool" where
  "is_decision_call (Ev_parse_action objective image_url) = True"
| "is_decision_call ev = False"

fun is_pause :: "event \<Rightarrow> bool" where
  "is_pause (Ev_sleep ms) = (ms = 200)"
| "is_pause ev = False"

fun is_capture :: "event \<Rightarrow> bool" where
  "is_capture (Ev_screenshot e) = True"
| "is_capture ev = False"

fun is_resolution :: "event \<Rightarrow> bool" where
  "is_resolution (Ev_parse_index t ds) = True"
| "is_resolution ev = False"

definition calls :: "(event \<Rightarrow> bool) \<Rightarrow> 'w machine \<Rightarrow> nat" where
  "calls P s = length (filter P (trace s))"

text \<open>
  The dictionaries of the visible elements of a list whose visibility and text are
  known: each carries the position of its element in the whole list.
\<close>

definition visible_clickable_dicts ::
    "(WebElement \<Rightarrow> bool) \<Rightarrow> (WebElement \<Rightarrow> string) \<Rightarrow> nat \<Rightarrow> WebElement list \<Rightarrow> element_dict list" where
  "visible_clickable_dicts vis txt i elements =
     map (\<lambda>(j, e). \<lparr>idx = int j, attrs = [(''text'', Some (txt e))]\<rparr>)
       (filter (\<lambda>(j, e). vis e) (zip [i ..< i + length elements] elements))"

definition visible_input_dicts ::
    "(WebElement \<Rightarrow> bool) \<Rightarrow> (WebElement \<Rightarrow> string \<Rightarrow> string option) \<Rightarrow> nat \<Rightarrow> WebElement list
       \<Rightarrow> element_dict list" where
  "visible_input_dicts vis attr i elements =
     map (\<lambda>(j, e). \<lparr>idx = int j,
                     attrs = [(''name'', attr e ''name''), (''placeholder'', attr e ''placeholder'')]\<rparr>)
       (filter (\<lambda>(j, e). vis e) (zip [i ..< i + length elements] elements))"

text \<open>The calls made while the dictionaries of a list are built.\<close>

definition clickable_reads :: "(WebElement \<Rightarrow> bool) \<Rightarrow> WebElement list \<Rightarrow> event list" where
  "clickable_reads vis elements =
     concat (map (\<lambda>e. if vis e then [Ev_is_displayed e, Ev_text e] else [Ev_is_displayed e]) elements)"

definition input_reads :: "(WebElement \<Rightarrow> bool) \<Rightarrow> WebElement list \<Rightarrow> event list" where
  "input_reads vis elements =
     concat (map (\<lambda>e. if vis e
                       then [Ev_is_displayed e, Ev_get_attribute e ''name'',
                             Ev_get_attribute e ''placeholder'']
                       else [Ev_is_displayed e]) elements)"

section \<open>Stub collaborators\<close>

text \<open>
  A page that never changes: \<open>els\<close> gives the elements of a tag, \<open>vis\<close> their
  visibility, the text of an element is its id, every attribute is its own name, every
  click and keystroke succeeds, and the index service always answers \<open>pick\<close>. The
  decision service is \<open>decide\<close>, a function of the state of the world.
\<close>

definition stub_env ::
    "(string \<Rightarrow> WebElement list) \<Rightarrow> (WebElement \<Rightarrow> bool) \<Rightarrow> int
       \<Rightarrow> ('w \<Rightarrow> (string + WebAction) \<times> 'w) \<Rightarrow> 'w env" where
  "stub_env els vis pick decide =
     \<lparr>drv_get = (\<lambda>url w. (Inr (), w)),
      drv_find_element = (\<lambda>tag w. (Inr (WebElement ''s'' tag), w)),
      drv_find_elements = (\<lambda>tag w. (Inr (els tag), w)),
      el_screenshot_as_base64 = (\<lambda>e w. (Inr ''iVBORw0KGgo='', w)),
      el_is_displayed = (\<lambda>e w. (Inr (vis e), w)),
      el_text = (\<lambda>e w. (Inr (case e of WebElement sid eid \<Rightarrow> eid), w)),
      el_get_attribute = (\<lambda>e n w. (Inr (Some n), w)),
      el_click = (\<lambda>e w. (Inr (), w)),
      el_send_keys = (\<lambda>e k w. (Inr (), w)),
      ai_parse_action = (\<lambda>objective image_url. decide),
      ai_parse_index = (\<lambda>t ds w. (Inr pick, w)),
      time_sleep = (\<lambda>ms w. w)\<rparr>"

text \<open>A decision service that reads its answers from a list, and fails at its end.\<close>

fun scripted :: "WebAction list \<Rightarrow> (string + WebAction) \<times> WebAction list" where
  "scripted [] = (Inl ''no reply'', [])"
| "scripted (a # rest) = (Inr a, rest)"

definition decision :: "WebActionType \<Rightarrow> string \<Rightarrow> string \<Rightarrow> string \<Rightarrow> WebAction" where
  "decision k t c m = \<lparr>action = Member k, target = t, content = c, termination_message = m\<rparr>"

text \<open>A page with a hidden link, a visible button and one visible input field.\<close>

fun demo_els :: "string \<Rightarrow> WebElement list" where
  "demo_els tag =
     (if tag = ''button'' then [WebElement ''s'' ''accept'']
      else if tag = ''a'' then [WebElement ''s'' ''hidden'']
      else if tag = ''input'' then [WebElement ''s'' ''search'']
      else [])"

fun demo_vis :: "WebElement \<Rightarrow> bool" where
  "demo_vis (WebElement sid eid) = (eid \<noteq> ''hidden'')"

text \<open>A page with no element at all, and a page whose only link is hidden.\<close>

fun no_els :: "string \<Rightarrow> WebElement list" where
  "no_els tag = []"

fun hidden_els :: "string \<Rightarrow> WebElement list" where
  "hidden_els tag = (if tag = ''a'' then [WebElement ''s'' ''hidden''] else [])"

text \<open>Decision services that give the same answer in every state of the world.\<close>

definition wait_env :: "unit env" where
  "wait_env = stub_env demo_els demo_vis 0 (\<lambda>w. (Inr (decision WAIT [] [] []), w))"

definition click_nothing_env :: "unit env" where
  "click_nothing_env =
     stub_env no_els demo_vis 0 (\<lambda>w. (Inr (decision CLICK ''Accept cookies'' [] []), w))"

text \<open>The same page behind a connection that is down: every navigation raises.\<close>

definition offline_env :: "WebAction list env" where
  "offline_env =
     (stub_env demo_els demo_vis 0 scripted)
       \<lparr>drv_get := (\<lambda>url w. (Inl ''net::ERR_INTERNET_DISCONNECTED'', w))\<rparr>"

definition exhausted :: string where
  "exhausted = ''Max attempts reached. Could not complete the action.''"

definition start :: "'w \<Rightarrow> 'w machine" where
  "start w = \<lparr>world = w, trace = []\<rparr>"

section \<open>Auxiliary facts\<close>

declare perform_loop.simps [simp del]

lemma seq_Inl: "m s = (Inl e, s') \<Longrightarrow> seq m f s = (Inl e, s')"
  by (simp add: seq_def)

lemma seq_Inr: "m s = (Inr x, s') \<Longrightarrow> seq m f s = f x s'"
  by (simp add: seq_def)

lemma seq_cases:
  assumes "seq m f s = (r, t)"
  obtains (raised) e where "m s = (Inl e, t)" and "r = Inl e"
  | (returned) x s' where "m s = (Inr x, s')" and "f x s' = (r, t)"
  using assms by (auto simp: seq_def split: prod.splits sum.splits)

lemma calls_driver_call:
  "driver_call ev f s = (r, s') \<Longrightarrow> calls P s' = calls P s + (if P ev then 1 else 0)"
  by (auto simp: driver_call_def calls_def split: prod.splits sum.splits)

lemma calls_service_call:
  "service_call ev f s = (r, s') \<Longrightarrow> calls P s' = calls P s + (if P ev then 1 else 0)"
  by (auto simp: service_call_def calls_def split: prod.splits sum.splits)

lemma calls_sleep:
  "sleep E ms s = (r, s') \<Longrightarrow> calls P s' = calls P s + (if P (Ev_sleep ms) then 1 else 0)"
  by (auto simp: sleep_def calls_def)

lemma calls_ret: "ret x s = (r, s') \<Longrightarrow> calls P s' = calls P s"
  by (auto simp: ret_def)

lemma calls_raise: "raise e s = (r, s') \<Longrightarrow> calls P s' = calls P s"
  by (auto simp: raise_def)

lemma calls_clickable_dicts:
  assumes "\<And>e. \<not> P (Ev_is_displayed e)" and "\<And>e. \<not> P (Ev_text e)"
  shows "clickable_dicts E i es s = (r, s') \<Longrightarrow> calls P s' = calls P s"
proof (induction es arbitrary: i s r s')
  case Nil
  then show ?case by (simp add: ret_def)
next
  case (Cons e es)
  from Cons.prems show ?case
    by (auto simp: ret_def assms split: if_splits elim!: seq_cases
        dest!: calls_driver_call [where P = P] Cons.IH)
qed

lemma calls_input_dicts:
  assumes "\<And>e. \<not> P (Ev_is_displayed e)" and "\<And>e n. \<not> P (Ev_get_attribute e n)"
  shows "input_dicts E i es s = (r, s') \<Longrightarrow> calls P s' = calls P s"
proof (induction es arbitrary: i s r s')
  case Nil
  then show ?case by (simp add: ret_def)
next
  case (Cons e es)
  from Cons.prems show ?case
    by (auto simp: ret_def assms split: if_splits elim!: seq_cases
        dest!: calls_driver_call [where P = P] Cons.IH)
qed

lemma calls_match_clickable:
  assumes "\<And>e. \<not> P (Ev_is_displayed e)" and "\<And>e. \<not> P (Ev_text e)"
    and "\<And>t ds. \<not> P (Ev_parse_index t ds)"
  shows "match_clickable E es t s = (r, s') \<Longrightarrow> calls P s' = calls P s"
  unfolding match_clickable_def match_element_idx_def
  by (auto simp: ret_def raise_def assms split: sum.splits elim!: seq_cases
      dest!: calls_service_call [where P = P] calls_clickable_dicts [where P = P, rotated 2])

lemma calls_match_input:
  assumes "\<And>e. \<not> P (Ev_is_displayed e)" and "\<And>e n. \<not> P (Ev_get_attribute e n)"
    and "\<And>t ds. \<not> P (Ev_parse_index t ds)"
  shows "match_input E es t s = (r, s') \<Longrightarrow> calls P s' = calls P s"
  unfolding match_input_def match_element_idx_def
  by (auto simp: ret_def raise_def assms split: sum.splits elim!: seq_cases
      dest!: calls_service_call [where P = P] calls_input_dicts [where P = P, rotated 2])

lemma calls_get_web_action:
  assumes "\<And>t. \<not> P (Ev_find_element t)" and "\<And>e. \<not> P (Ev_screenshot e)"
    and "\<And>d u. \<not> P (Ev_parse_action d u)"
  shows "get_web_action E d s = (r, s') \<Longrightarrow> calls P s' = calls P s"
  unfolding get_web_action_def capture_current_page_def
  by (auto simp: Let_def assms elim!: seq_cases
      dest!: calls_service_call [where P = P] calls_driver_call [where P = P])

lemma calls_execute_action_le:
  "execute_web_action E a s = (r, s')
     \<Longrightarrow> calls is_action_call s' \<le> calls is_action_call s + 1"
  unfolding execute_web_action_def
  by (auto simp: ret_def raise_def split: if_splits elim!: seq_cases
      dest!: calls_driver_call [where P = is_action_call] calls_sleep [where P = is_action_call]
        calls_match_clickable [where P = is_action_call, rotated 3]
        calls_match_input [where P = is_action_call, rotated 3])

lemma calls_execute_other:
  assumes "\<And>t. \<not> P (Ev_find_elements t)"
    and "\<And>e. \<not> P (Ev_is_displayed e)" and "\<And>e. \<not> P (Ev_text e)"
    and "\<And>e n. \<not> P (Ev_get_attribute e n)" and "\<And>t ds. \<not> P (Ev_parse_index t ds)"
    and "\<And>e. \<not> P (Ev_click e)" and "\<And>e k. \<not> P (Ev_send_keys e k)"
    and "\<not> P (Ev_sleep 3000)"
  shows "execute_web_action E a s = (r, s') \<Longrightarrow> calls P s' = calls P s"
  unfolding execute_web_action_def
  by (auto simp: ret_def raise_def assms split: if_splits elim!: seq_cases
      dest!: calls_driver_call [where P = P] calls_sleep [where P = P]
        calls_match_clickable [where P = P, rotated 3]
        calls_match_input [where P = P, rotated 3])


lemma get_web_action_counts:
  assumes "get_web_action E d s = (Inr a, s')"
  shows "calls is_decision_call s' = calls is_decision_call s + 1"
    and "calls is_capture s' = calls is_capture s + 1"
    and "calls is_pause s' = calls is_pause s"
    and "calls is_mutation s' = calls is_mutation s"
  using assms unfolding get_web_action_def capture_current_page_def
  by (auto simp: Let_def service_call_def driver_call_def calls_def
      split: prod.splits sum.splits elim!: seq_cases)

lemma get_web_action_decision:
  assumes "get_web_action E d s = (Inr a, s')"
  shows "\<exists>u w w'. ai_parse_action E d u w = (Inr a, w')"
proof -
  from assms obtain shot s1 where
    "service_call (Ev_parse_action d (''data:image/png;base64,'' @ shot))
       (ai_parse_action E d (''data:image/png;base64,'' @ shot)) s1 = (Inr a, s')"
    unfolding get_web_action_def by (auto simp: Let_def elim!: seq_cases)
  then have "fst (ai_parse_action E d (''data:image/png;base64,'' @ shot) (world s1)) = Inr a"
    by (auto simp: service_call_def split: prod.splits sum.splits)
  then show ?thesis by (metis prod.collapse)
qed

lemma sleep_eq: "sleep E ms s = (Inr (), snd (sleep E ms s))"
  by (simp add: sleep_def)

lemma execute_none:
  "action a = Member NONE \<Longrightarrow> execute_web_action E a s = (Inr (termination_message a), s)"
  by (simp add: execute_web_action_def ret_def)

lemma tick_none:
  assumes "get_web_action E d (snd (sleep E 200 s)) = (Inr a, s')"
    and "action a = Member NONE"
  shows "tick E d s = (Inr (a, termination_message a), s')"
proof -
  from assms(1) have "get_web_action E d
      \<lparr>world = time_sleep E 200 (world s), trace = trace s @ [Ev_sleep 200]\<rparr> = (Inr a, s')"
    by (simp add: sleep_def)
  then show ?thesis
    by (simp add: tick_def seq_def sleep_def execute_none [OF assms(2)] ret_def)
qed

lemma tick_steps:
  assumes "tick E d s = (Inr (a, m), s')"
  obtains s1 s2 where "sleep E 200 s = (Inr (), s1)"
    and "get_web_action E d s1 = (Inr a, s2)"
    and "execute_web_action E a s2 = (Inr m, s')"
  using assms unfolding tick_def by (auto simp: ret_def elim!: seq_cases)

lemma tick_counts:
  assumes "tick E d s = (Inr (a, m), s')"
  shows "calls is_decision_call s' = calls is_decision_call s + 1"
    and "calls is_capture s' = calls is_capture s + 1"
    and "calls is_pause s' = calls is_pause s + 1"
proof -
  from assms obtain s1 s2 where sl: "sleep E 200 s = (Inr (), s1)"
    and gw: "get_web_action E d s1 = (Inr a, s2)"
    and ex: "execute_web_action E a s2 = (Inr m, s')"
    by (rule tick_steps)
  show "calls is_decision_call s' = calls is_decision_call s + 1"
    using calls_sleep [OF sl, of is_decision_call] get_web_action_counts(1) [OF gw]
      calls_execute_other [OF _ _ _ _ _ _ _ _ ex, of is_decision_call]
    by simp
  show "calls is_capture s' = calls is_capture s + 1"
    using calls_sleep [OF sl, of is_capture] get_web_action_counts(2) [OF gw]
      calls_execute_other [OF _ _ _ _ _ _ _ _ ex, of is_capture]
    by simp
  show "calls is_pause s' = calls is_pause s + 1"
    using calls_sleep [OF sl, of is_pause] get_web_action_counts(3) [OF gw]
      calls_execute_other [OF _ _ _ _ _ _ _ _ ex, of is_pause]
    by simp
qed

lemma tick_decision:
  assumes "tick E d s = (Inr (a, m), s')"
  shows "\<exists>u w w'. ai_parse_action E d u w = (Inr a, w')"
  using assms unfolding tick_def
  by (auto simp: ret_def elim!: seq_cases dest: get_web_action_decision)

lemma tick_action_calls:
  assumes "tick E d s = (r, s')"
  shows "calls is_action_call s' \<le> calls is_action_call s + 1"
  using assms unfolding tick_def
  by (auto simp: ret_def elim!: seq_cases
      dest!: calls_sleep [where P = is_action_call] calls_execute_action_le
        calls_get_web_action [where P = is_action_call, rotated 3])

lemma loop_exhausted: "max_attempts \<le> n \<Longrightarrow> perform_loop E d n s = (Inr exhausted, s)"
  by (simp add: perform_loop.simps exhausted_def)

lemma loop_raise:
  "n < max_attempts \<Longrightarrow> tick E d s = (Inl e, s') \<Longrightarrow> perform_loop E d n s = (Inl e, s')"
  by (simp add: perform_loop.simps)

lemma loop_none:
  "n < max_attempts \<Longrightarrow> tick E d s = (Inr (a, m), s') \<Longrightarrow> action a = Member NONE
     \<Longrightarrow> perform_loop E d n s = (Inr (termination_message a), s')"
  by (simp add: perform_loop.simps)

lemma loop_continue:
  "n < max_attempts \<Longrightarrow> tick E d s = (Inr (a, m), s') \<Longrightarrow> action a \<noteq> Member NONE
     \<Longrightarrow> perform_loop E d n s = perform_loop E d (n + 1) s'"
  by (simp add: perform_loop.simps)

lemma loop_completed:
  "completed_ticks E d k s = Some t \<Longrightarrow> n + k \<le> max_attempts
     \<Longrightarrow> perform_loop E d n s = perform_loop E d (n + k) t"
proof (induction k arbitrary: n s)
  case 0
  then show ?case by simp
next
  case (Suc k)
  from Suc.prems(1) obtain a m s' where t: "tick E d s = (Inr (a, m), s')"
    and a: "action a \<noteq> Member NONE" and rest: "completed_ticks E d k s' = Some t"
    by (auto split: prod.splits sum.splits if_splits)
  from Suc.prems(2) have "n < max_attempts" by simp
  then have "perform_loop E d n s = perform_loop E d (n + 1) s'"
    using t a by (rule loop_continue)
  also have "\<dots> = perform_loop E d (n + 1 + k) t"
    using rest Suc.prems(2) by (intro Suc.IH) simp_all
  finally show ?case by simp
qed

lemma completed_counts:
  "completed_ticks E d k s = Some t \<Longrightarrow>
     calls is_decision_call t = calls is_decision_call s + k
     \<and> calls is_capture t = calls is_capture s + k
     \<and> calls is_pause t = calls is_pause s + k"
proof (induction k arbitrary: s)
  case 0
  then show ?case by simp
next
  case (Suc k)
  from Suc.prems obtain a m s' where t: "tick E d s = (Inr (a, m), s')"
    and rest: "completed_ticks E d k s' = Some t"
    by (auto split: prod.splits sum.splits if_splits)
  show ?case
    using Suc.IH [OF rest] tick_counts(1-3) [OF t] by simp
qed

lemma loop_action_calls:
  "perform_loop E d n s = (r, s')
     \<Longrightarrow> calls is_action_call s' \<le> calls is_action_call s + (max_attempts - n)"
proof (induction E d n s arbitrary: r s' rule: perform_loop.induct)
  case (1 E d n s)
  show ?case
  proof (cases "n + 1 > max_attempts")
    case True
    with "1.prems" show ?thesis by (simp add: perform_loop.simps)
  next
    case False
    obtain q t where t: "tick E d s = (q, t)" by (cases "tick E d s")
    note le = tick_action_calls [OF t]
    show ?thesis
    proof (cases q)
      case (Inl e)
      with False t "1.prems" le show ?thesis by (simp add: perform_loop.simps)
    next
      case (Inr am)
      obtain a m where am: "am = (a, m)" by (cases am)
      show ?thesis
      proof (cases "action a = Member NONE")
        case True
        with False t Inr am "1.prems" le show ?thesis by (simp add: perform_loop.simps)
      next
        case na: False
        from False t Inr am na "1.prems"
        have "perform_loop E d (n + 1) t = (r, s')" by (simp add: perform_loop.simps)
        from "1.IH" [OF False _ _ _ na this] t Inr am
        have "calls is_action_call s' \<le> calls is_action_call t + (max_attempts - (n + 1))"
          by simp
        with le False show ?thesis by simp
      qed
    qed
  qed
qed


lemma loop_outcome:
  "perform_loop E d n s = (r, s') \<Longrightarrow> n \<le> max_attempts \<Longrightarrow>
     (r = Inr exhausted \<and> completed_ticks E d (max_attempts - n) s = Some s')
     \<or> (\<exists>k sk e. k < max_attempts - n \<and> completed_ticks E d k s = Some sk
           \<and> tick E d sk = (Inl e, s') \<and> r = Inl e)
     \<or> (\<exists>k sk a m. k < max_attempts - n \<and> completed_ticks E d k s = Some sk
           \<and> tick E d sk = (Inr (a, m), s') \<and> action a = Member NONE
           \<and> r = Inr (termination_message a))"
proof (induction E d n s arbitrary: r s' rule: perform_loop.induct)
  case (1 E d n s)
  note run = "1.prems"(1) and le = "1.prems"(2)
  show ?case
  proof (cases "n + 1 > max_attempts")
    case True
    with le have "max_attempts - n = 0" by simp
    with True run show ?thesis by (simp add: perform_loop.simps exhausted_def)
  next
    case False
    then have more: "max_attempts - n = Suc (max_attempts - (n + 1))" by simp
    have start: "0 < max_attempts - n" "completed_ticks E d 0 s = Some s"
      using False by simp_all
    obtain q t where t: "tick E d s = (q, t)" by (cases "tick E d s")
    show ?thesis
    proof (cases q)
      case (Inl e)
      with False t run have "r = Inl e" "s' = t" by (auto simp: perform_loop.simps)
      with t Inl start show ?thesis by blast
    next
      case (Inr am)
      obtain a m where am: "am = (a, m)" by (cases am)
      show ?thesis
      proof (cases "action a = Member NONE")
        case True
        with False t Inr am run have "r = Inr (termination_message a)" "s' = t"
          by (auto simp: perform_loop.simps)
        with t Inr am True start show ?thesis by blast
      next
        case na: False
        from False t Inr am na run
        have next_run: "perform_loop E d (n + 1) t = (r, s')" by (simp add: perform_loop.simps)
        from False have le': "n + 1 \<le> max_attempts" by simp
        have step: "completed_ticks E d (Suc k) s = completed_ticks E d k t" for k
          using t Inr am na by simp
        have ih: "(r = Inr exhausted \<and> completed_ticks E d (max_attempts - (n + 1)) t = Some s')
          \<or> (\<exists>k sk e. k < max_attempts - (n + 1) \<and> completed_ticks E d k t = Some sk
                \<and> tick E d sk = (Inl e, s') \<and> r = Inl e)
          \<or> (\<exists>k sk a m. k < max_attempts - (n + 1) \<and> completed_ticks E d k t = Some sk
                \<and> tick E d sk = (Inr (a, m), s') \<and> action a = Member NONE
                \<and> r = Inr (termination_message a))"
          using "1.IH" [OF False _ _ _ na next_run le'] t Inr am by simp
        then consider
            (ex) "r = Inr exhausted" "completed_ticks E d (max_attempts - (n + 1)) t = Some s'"
          | (raised) k sk e where "k < max_attempts - (n + 1)" "completed_ticks E d k t = Some sk"
              "tick E d sk = (Inl e, s')" "r = Inl e"
          | (none) k sk a' m' where "k < max_attempts - (n + 1)" "completed_ticks E d k t = Some sk"
              "tick E d sk = (Inr (a', m'), s')" "action a' = Member NONE"
              "r = Inr (termination_message a')"
          by blast
        then show ?thesis
        proof cases
          case ex
          then show ?thesis unfolding more by (simp only: step) simp
        next
          case raised
          have "Suc k < max_attempts - n" using raised(1) more by simp
          moreover have "completed_ticks E d (Suc k) s = Some sk"
            using raised(2) by (simp only: step)
          ultimately show ?thesis using raised(3,4) by blast
        next
          case none
          have "Suc k < max_attempts - n" using none(1) more by simp
          moreover have "completed_ticks E d (Suc k) s = Some sk"
            using none(2) by (simp only: step)
          ultimately show ?thesis using none(3,4,5) by blast
        qed
      qed
    qed
  qed
qed

lemmas run_defs = perform_web_action_def perform_loop.simps max_attempts_def tick_def seq_def
  sleep_def get_web_action_def capture_current_page_def driver_call_def service_call_def
  execute_web_action_def match_clickable_def match_input_def match_element_idx_def
  list_getitem_def ret_def raise_def start_def decision_def stub_env_def calls_def exhausted_def

section \<open>The claims\<close>

text \<open>
  C1 (amended). Whatever the decision service answers, as long as it never answers
  \<open>NONE\<close>: \<open>perform_web_action\<close> returns (it is a total function), and either it
  returns the fixed exhaustion message, in the state left by 15 completed ticks, or one
  of the first 15 ticks raised and its exception leaves the function in the state of
  that tick; so the exhaustion message is returned unless a tick raised. \<open>click\<close> and
  \<open>send_keys\<close> are called at most 15 times during the whole invocation.
\<close>

theorem perform_web_action_bounded:
  assumes "\<And>objective image_url w a w'.
      ai_parse_action E objective image_url w = (Inr a, w') \<Longrightarrow> action a \<noteq> Member NONE"
  shows "\<exists>r s'. perform_web_action E d s = (r, s')
     \<and> ((r = Inr exhausted \<and> completed_ticks E d 15 s = Some s')
         \<or> (\<exists>k sk e. k < 15 \<and> completed_ticks E d k s = Some sk
               \<and> tick E d sk = (Inl e, s') \<and> r = Inl e))
     \<and> ((\<forall>k sk. k < 15 \<and> completed_ticks E d k s = Some sk
             \<longrightarrow> (\<forall>e t. tick E d sk \<noteq> (Inl e, t)))
         \<longrightarrow> r = Inr exhausted)
     \<and> calls is_action_call s' \<le> calls is_action_call s + 15"
proof -
  obtain r s' where run: "perform_loop E d 0 s = (r, s')" by (cases "perform_loop E d 0 s")
  have no_none: "\<not> (tick E d sk = (Inr (a, m), t) \<and> action a = Member NONE)" for sk a m t
    using assms tick_decision [of E d sk a m t] by blast
  from loop_outcome [OF run] no_none
  have split: "(r = Inr exhausted \<and> completed_ticks E d 15 s = Some s')
         \<or> (\<exists>k sk e. k < 15 \<and> completed_ticks E d k s = Some sk
               \<and> tick E d sk = (Inl e, s') \<and> r = Inl e)"
    by (simp add: max_attempts_def) blast
  then have unless: "(\<forall>k sk. k < 15 \<and> completed_ticks E d k s = Some sk
             \<longrightarrow> (\<forall>e t. tick E d sk \<noteq> (Inl e, t)))
         \<longrightarrow> r = Inr exhausted"
    by blast
  from split unless loop_action_calls [OF run] run
  show ?thesis by (simp add: perform_web_action_def max_attempts_def)
qed

theorem perform_web_action_bounded_witness:
  "fst (perform_web_action wait_env ''open the menu'' (start ())) = Inr exhausted
   \<and> calls is_action_call (snd (perform_web_action wait_env ''open the menu'' (start ()))) = 0"
proof -
  have h: "\<And>objective image_url w a w'.
      ai_parse_action wait_env objective image_url w = (Inr a, w') \<Longrightarrow> action a \<noteq> Member NONE"
    by (auto simp: wait_env_def stub_env_def decision_def)
  from perform_web_action_bounded [OF h, where d = "''open the menu''" and s = "start ()"]
  show ?thesis by (simp add: run_defs wait_env_def)
qed

text \<open>
  The claim as written fails: the service always decides \<open>CLICK\<close>, the page has
  neither a button nor a link, and the subscript of the empty list raises in the first
  tick.
\<close>

theorem perform_web_action_bounded_counterexample:
  "(\<forall>objective image_url w.
      fst (ai_parse_action click_nothing_env objective image_url w)
        = Inr (decision CLICK ''Accept cookies'' [] []))
   \<and> fst (perform_web_action click_nothing_env ''open the menu'' (start ())) = Inl IndexError"
  by (simp add: run_defs click_nothing_env_def)

text \<open>
  C9. After 15 completed ticks with no \<open>NONE\<close> decision the function returns the
  exhaustion message in the very state the 15th tick left: nothing of a 16th tick
  is performed, and exactly 15 calls of the decision service, 15 captures and 15
  pauses of 0.2 seconds were made.
\<close>

theorem exhaustion_skips_sixteenth_tick:
  assumes "completed_ticks E d 15 s = Some t"
  shows "perform_web_action E d s = (Inr exhausted, t)
         \<and> calls is_decision_call t = calls is_decision_call s + 15
         \<and> calls is_capture t = calls is_capture s + 15
         \<and> calls is_pause t = calls is_pause s + 15"
proof -
  have "perform_loop E d 0 s = perform_loop E d (0 + 15) t"
    using assms by (rule loop_completed) (simp add: max_attempts_def)
  also have "\<dots> = (Inr exhausted, t)"
    by (rule loop_exhausted) (simp add: max_attempts_def)
  finally show ?thesis
    using completed_counts [OF assms] by (simp add: perform_web_action_def)
qed

theorem exhaustion_skips_sixteenth_tick_witness:
  "completed_ticks wait_env ''open the menu'' 15 (start ())
     = Some (snd (perform_web_action wait_env ''open the menu'' (start ())))
   \<and> fst (perform_web_action wait_env ''open the menu'' (start ())) = Inr exhausted
   \<and> calls is_decision_call (snd (perform_web_action wait_env ''open the menu'' (start ()))) = 15
   \<and> calls is_pause (snd (perform_web_action wait_env ''open the menu'' (start ()))) = 15"
proof -
  define t where "t = the (completed_ticks wait_env ''open the menu'' 15 (start ()))"
  have h: "completed_ticks wait_env ''open the menu'' 15 (start ()) = Some t"
    unfolding t_def by (simp add: eval_nat_numeral run_defs wait_env_def)
  have z: "calls is_decision_call (start ()) = 0" "calls is_pause (start ()) = 0"
    by (simp_all add: calls_def start_def)
  from exhaustion_skips_sixteenth_tick [OF h] h z show ?thesis by simp
qed

text \<open>
  C2. In whichever tick the decision has kind \<open>NONE\<close> (after \<open>k < 15\<close> completed
  ticks), \<open>perform_web_action\<close> returns exactly the \<open>termination_message\<close> of that
  decision, whatever its target and content; \<open>execute_web_action\<close> leaves the state as
  it found it, and since the tick began no \<open>click\<close>, no \<open>send_keys\<close> and no
  navigation has been called.
\<close>

theorem none_decision_terminates:
  assumes "completed_ticks E d k s = Some sk" and "k < 15"
    and "get_web_action E d (snd (sleep E 200 sk)) = (Inr a, s')"
    and "action a = Member NONE"
  shows "perform_web_action E d s = (Inr (termination_message a), s')
         \<and> execute_web_action E a s' = (Inr (termination_message a), s')
         \<and> calls is_mutation s' = calls is_mutation sk"
proof -
  have "perform_loop E d 0 s = perform_loop E d (0 + k) sk"
    using assms(1) by (rule loop_completed) (use assms(2) in \<open>simp add: max_attempts_def\<close>)
  also have "\<dots> = (Inr (termination_message a), s')"
    using assms(2) tick_none [OF assms(3,4)] assms(4)
    by (intro loop_none) (simp_all add: max_attempts_def)
  finally have run: "perform_web_action E d s = (Inr (termination_message a), s')"
    by (simp add: perform_web_action_def)
  have "calls is_mutation s' = calls is_mutation (snd (sleep E 200 sk))"
    using assms(3) by (rule get_web_action_counts(4))
  also have "\<dots> = calls is_mutation sk"
    by (simp add: sleep_def calls_def)
  finally show ?thesis
    using run execute_none [OF assms(4)] by simp
qed

theorem none_decision_terminates_witness:
  "perform_web_action (stub_env demo_els demo_vis 0 scripted)
       ''find the contact email on this page''
       (start [decision CLICK ''Accept cookies'' [] [],
               decision NONE ''unused'' ''unused'' ''contact@example.com''])
     = (Inr ''contact@example.com'',
        \<lparr>world = [],
         trace = [Ev_sleep 200, Ev_find_element ''body'', Ev_screenshot (WebElement ''s'' ''body''),
           Ev_parse_action ''find the contact email on this page''
             ''data:image/png;base64,iVBORw0KGgo='',
           Ev_find_elements ''button'', Ev_find_elements ''a'',
           Ev_is_displayed (WebElement ''s'' ''accept''), Ev_text (WebElement ''s'' ''accept''),
           Ev_is_displayed (WebElement ''s'' ''hidden''),
           Ev_parse_index ''Accept cookies'' [\<lparr>idx = 0, attrs = [(''text'', Some ''accept'')]\<rparr>],
           Ev_click (WebElement ''s'' ''accept''),
           Ev_sleep 200, Ev_find_element ''body'', Ev_screenshot (WebElement ''s'' ''body''),
           Ev_parse_action ''find the contact email on this page''
             ''data:image/png;base64,iVBORw0KGgo='']\<rparr>)"
proof -
  let ?E = "stub_env demo_els demo_vis 0 scripted"
  let ?d = "''find the contact email on this page''"
  let ?a = "decision NONE ''unused'' ''unused'' ''contact@example.com''"
  let ?s = "start [decision CLICK ''Accept cookies'' [] [], ?a]"
  define sk where "sk = the (completed_ticks ?E ?d 1 ?s)"
  define s' where "s' = snd (get_web_action ?E ?d (snd (sleep ?E 200 sk)))"
  have h1: "completed_ticks ?E ?d 1 ?s = Some sk"
    unfolding sk_def by (simp add: run_defs)
  have h2: "get_web_action ?E ?d (snd (sleep ?E 200 sk)) = (Inr ?a, s')"
    unfolding s'_def sk_def by (simp add: run_defs)
  have h3: "action ?a = Member NONE" by (simp add: decision_def)
  have h4: "termination_message ?a = ''contact@example.com''" by (simp add: decision_def)
  have h5: "s' = \<lparr>world = [],
         trace = [Ev_sleep 200, Ev_find_element ''body'', Ev_screenshot (WebElement ''s'' ''body''),
           Ev_parse_action ''find the contact email on this page''
             ''data:image/png;base64,iVBORw0KGgo='',
           Ev_find_elements ''button'', Ev_find_elements ''a'',
           Ev_is_displayed (WebElement ''s'' ''accept''), Ev_text (WebElement ''s'' ''accept''),
           Ev_is_displayed (WebElement ''s'' ''hidden''),
           Ev_parse_index ''Accept cookies'' [\<lparr>idx = 0, attrs = [(''text'', Some ''accept'')]\<rparr>],
           Ev_click (WebElement ''s'' ''accept''),
           Ev_sleep 200, Ev_find_element ''body'', Ev_screenshot (WebElement ''s'' ''body''),
           Ev_parse_action ''find the contact email on this page''
             ''data:image/png;base64,iVBORw0KGgo='']\<rparr>"
    unfolding s'_def sk_def by (simp add: run_defs)
  from none_decision_terminates [OF h1 _ h2 h3] h4 h5 show ?thesis by simp
qed

text \<open>
  C10. The termination message of a \<open>NONE\<close> decision is returned as it is, whatever
  string \<open>m\<close> it is: nothing checks that it is not empty. The witness takes the empty
  message.
\<close>

theorem termination_message_verbatim:
  assumes "completed_ticks E d k s = Some sk" and "k < 15"
    and "get_web_action E d (snd (sleep E 200 sk)) = (Inr a, s')"
    and "action a = Member NONE" and "termination_message a = m"
  shows "fst (perform_web_action E d s) = Inr m"
proof -
  have "perform_loop E d 0 s = perform_loop E d (0 + k) sk"
    using assms(1) by (rule loop_completed) (use assms(2) in \<open>simp add: max_attempts_def\<close>)
  also have "\<dots> = (Inr (termination_message a), s')"
    using assms(2) tick_none [OF assms(3,4)] assms(4)
    by (intro loop_none) (simp_all add: max_attempts_def)
  finally show ?thesis
    using assms(5) by (simp add: perform_web_action_def)
qed

theorem termination_message_verbatim_witness:
  "fst (perform_web_action (stub_env demo_els demo_vis 0 scripted) ''sign in''
          (start [decision NONE [] [] []])) = Inr []"
proof -
  let ?E = "stub_env demo_els demo_vis 0 scripted"
  let ?a = "decision NONE [] [] []"
  let ?s = "start [?a]"
  define s' where "s' = snd (get_web_action ?E ''sign in'' (snd (sleep ?E 200 ?s)))"
  have h1: "completed_ticks ?E ''sign in'' 0 ?s = Some ?s" by simp
  have h2: "get_web_action ?E ''sign in'' (snd (sleep ?E 200 ?s)) = (Inr ?a, s')"
    unfolding s'_def by (simp add: run_defs)
  have h3: "action ?a = Member NONE" and h4: "termination_message ?a = []"
    by (simp_all add: decision_def)
  from termination_message_verbatim [OF h1 _ h2 h3 h4] show ?thesis by simp
qed

lemma driver_call_no_ValueError: "driver_call ev f s = (r, s') \<Longrightarrow> r \<noteq> Inl (ValueError m)"
  by (auto simp: driver_call_def split: prod.splits sum.splits)

lemma service_call_no_ValueError: "service_call ev f s = (r, s') \<Longrightarrow> r \<noteq> Inl (ValueError m)"
  by (auto simp: service_call_def split: prod.splits sum.splits)

lemma clickable_dicts_no_ValueError:
  "clickable_dicts E i es s = (r, s') \<Longrightarrow> r \<noteq> Inl (ValueError m)"
proof (induction es arbitrary: i s r s')
  case Nil
  then show ?case by (auto simp: ret_def)
next
  case (Cons e es)
  from Cons.prems show ?case
    by (auto simp: ret_def split: if_splits elim!: seq_cases
        dest: driver_call_no_ValueError Cons.IH)
qed

lemma input_dicts_no_ValueError:
  "input_dicts E i es s = (r, s') \<Longrightarrow> r \<noteq> Inl (ValueError m)"
proof (induction es arbitrary: i s r s')
  case Nil
  then show ?case by (auto simp: ret_def)
next
  case (Cons e es)
  from Cons.prems show ?case
    by (auto simp: ret_def split: if_splits elim!: seq_cases
        dest: driver_call_no_ValueError Cons.IH)
qed

lemma list_getitem_no_ValueError: "list_getitem xs i \<noteq> Inl (ValueError m)"
  by (simp add: list_getitem_def)

lemma match_clickable_no_ValueError:
  "match_clickable E es t s = (r, s') \<Longrightarrow> r \<noteq> Inl (ValueError m)"
  unfolding match_clickable_def match_element_idx_def
  by (auto simp: ret_def raise_def list_getitem_no_ValueError split: sum.splits elim!: seq_cases
      dest: service_call_no_ValueError clickable_dicts_no_ValueError)

lemma match_input_no_ValueError:
  "match_input E es t s = (r, s') \<Longrightarrow> r \<noteq> Inl (ValueError m)"
  unfolding match_input_def match_element_idx_def
  by (auto simp: ret_def raise_def list_getitem_no_ValueError split: sum.splits elim!: seq_cases
      dest: service_call_no_ValueError input_dicts_no_ValueError)

lemma execute_member_no_ValueError:
  assumes "action a = Member k" and "execute_web_action E a s = (r, s')"
  shows "r \<noteq> Inl (ValueError m)"
  using assms(2) unfolding execute_web_action_def
  by (cases k)
    (auto simp: assms(1) ret_def sleep_def elim!: seq_cases
      dest: driver_call_no_ValueError match_clickable_no_ValueError match_input_no_ValueError)

text \<open>
  C7. A decision whose kind is none of the five members makes \<open>execute_web_action\<close>
  raise the \<open>ValueError\<close> "Unsupported action type", before any call to the driver,
  the service or the clock: the value is mapped onto no other action. For a kind that
  is one of the five members that \<open>ValueError\<close> is never raised.
\<close>

theorem unsupported_action_raises:
  "(\<forall>v. action a = Foreign v \<longrightarrow>
      execute_web_action E a s = (Inl (ValueError (''Unsupported action type: '' @ v)), s))
   \<and> (\<forall>k m. action a = Member k \<longrightarrow> fst (execute_web_action E a s) \<noteq> Inl (ValueError m))"
proof (intro conjI allI impI)
  fix v assume "action a = Foreign v"
  then show "execute_web_action E a s = (Inl (ValueError (''Unsupported action type: '' @ v)), s)"
    by (simp add: execute_web_action_def raise_def)
next
  fix k m assume "action a = Member k"
  then show "fst (execute_web_action E a s) \<noteq> Inl (ValueError m)"
    using execute_member_no_ValueError [of a k E s] by (metis prod.collapse)
qed

theorem unsupported_action_raises_witness:
  "execute_web_action (stub_env demo_els demo_vis 0 scripted)
       \<lparr>action = Foreign ''scroll'', target = ''page'', content = [], termination_message = []\<rparr>
       (start [])
     = (Inl (ValueError ''Unsupported action type: scroll''), start [])
   \<and> fst (execute_web_action (stub_env demo_els demo_vis 0 scripted)
            (decision CLICK ''Accept cookies'' [] []) (start []))
       \<noteq> Inl (ValueError ''Unsupported action type: WebActionType.CLICK'')"
  using unsupported_action_raises
    [of "\<lparr>action = Foreign ''scroll'', target = ''page'', content = [], termination_message = []\<rparr>"
      "stub_env demo_els demo_vis 0 scripted" "start []"]
    unsupported_action_raises
    [of "decision CLICK ''Accept cookies'' [] []" "stub_env demo_els demo_vis 0 scripted" "start []"]
  by (simp add: decision_def)

lemma upt_shift: "[i ..< i + length (e # es)] = i # [Suc i ..< Suc i + length es]"
  by (simp add: upt_conv_Cons del: upt_Suc)

lemma visible_clickable_dicts_Nil: "visible_clickable_dicts vis txt i [] = []"
  by (simp add: visible_clickable_dicts_def)

lemma visible_clickable_dicts_Cons:
  "visible_clickable_dicts vis txt i (e # es) =
     (if vis e then [\<lparr>idx = int i, attrs = [(''text'', Some (txt e))]\<rparr>] else [])
       @ visible_clickable_dicts vis txt (Suc i) es"
  unfolding visible_clickable_dicts_def upt_shift by simp

lemma visible_input_dicts_Nil: "visible_input_dicts vis attr i [] = []"
  by (simp add: visible_input_dicts_def)

lemma visible_input_dicts_Cons:
  "visible_input_dicts vis attr i (e # es) =
     (if vis e then [\<lparr>idx = int i,
           attrs = [(''name'', attr e ''name''), (''placeholder'', attr e ''placeholder'')]\<rparr>]
      else [])
       @ visible_input_dicts vis attr (Suc i) es"
  unfolding visible_input_dicts_def upt_shift by simp

lemma clickable_dicts_stable:
  assumes "\<And>e. el_is_displayed E e w = (Inr (vis e), w)"
    and "\<And>e. el_text E e w = (Inr (txt e), w)"
  shows "clickable_dicts E i es \<lparr>world = w, trace = tr\<rparr> =
           (Inr (visible_clickable_dicts vis txt i es),
            \<lparr>world = w, trace = tr @ clickable_reads vis es\<rparr>)"
proof (induction es arbitrary: i tr)
  case Nil
  show ?case by (simp add: ret_def visible_clickable_dicts_Nil clickable_reads_def)
next
  case (Cons e es)
  show ?case
    by (simp add: seq_def driver_call_def assms Cons.IH ret_def visible_clickable_dicts_Cons
        clickable_reads_def)
qed

lemma input_dicts_stable:
  assumes "\<And>e. el_is_displayed E e w = (Inr (vis e), w)"
    and "\<And>e n. el_get_attribute E e n w = (Inr (attr e n), w)"
  shows "input_dicts E i es \<lparr>world = w, trace = tr\<rparr> =
           (Inr (visible_input_dicts vis attr i es),
            \<lparr>world = w, trace = tr @ input_reads vis es\<rparr>)"
proof (induction es arbitrary: i tr)
  case Nil
  show ?case by (simp add: ret_def visible_input_dicts_Nil input_reads_def)
next
  case (Cons e es)
  show ?case
    by (simp add: seq_def driver_call_def assms Cons.IH ret_def visible_input_dicts_Cons
        input_reads_def)
qed

lemma zip_upt_filter_idx:
  "map fst (filter (\<lambda>(j, e). vis e) (zip [i ..< i + length es] es))
     = map (\<lambda>j. i + j) (filter (\<lambda>j. vis (es ! j)) [0 ..< length es])"
proof (induction es arbitrary: i)
  case Nil
  show ?case by simp
next
  case (Cons e es)
  have shift: "[0 ..< length (e # es)] = 0 # map Suc [0 ..< length es]"
    by (simp add: upt_conv_Cons map_Suc_upt del: upt_Suc)
  show ?case
    unfolding upt_shift shift using Cons.IH [of "Suc i"]
    by (simp add: filter_map o_def)
qed

lemma idx_visible_clickable_dicts:
  "map idx (visible_clickable_dicts vis txt 0 es)
     = map int (filter (\<lambda>j. vis (es ! j)) [0 ..< length es])"
proof -
  have "map idx (visible_clickable_dicts vis txt 0 es)
      = map int (map fst (filter (\<lambda>(j, e). vis e) (zip [0 ..< 0 + length es] es)))"
    by (simp add: visible_clickable_dicts_def o_def split_def)
  then show ?thesis by (simp only: zip_upt_filter_idx) simp
qed

lemma idx_visible_input_dicts:
  "map idx (visible_input_dicts vis attr 0 es)
     = map int (filter (\<lambda>j. vis (es ! j)) [0 ..< length es])"
proof -
  have "map idx (visible_input_dicts vis attr 0 es)
      = map int (map fst (filter (\<lambda>(j, e). vis e) (zip [0 ..< 0 + length es] es)))"
    by (simp add: visible_input_dicts_def o_def split_def)
  then show ?thesis by (simp only: zip_upt_filter_idx) simp
qed

lemma member_visible_clickable_dicts:
  assumes "d \<in> set (visible_clickable_dicts vis txt 0 es)"
  shows "\<exists>j < length es. idx d = int j \<and> vis (es ! j) \<and> attrs d = [(''text'', Some (txt (es ! j)))]"
proof -
  from assms obtain j e where "(j, e) \<in> set (zip [0 ..< 0 + length es] es)" and "vis e"
    and d: "d = \<lparr>idx = int j, attrs = [(''text'', Some (txt e))]\<rparr>"
    by (auto simp: visible_clickable_dicts_def)
  then have "j < length es" and "e = es ! j"
    by (auto simp: set_zip)
  with \<open>vis e\<close> d show ?thesis by auto
qed

lemma member_visible_input_dicts:
  assumes "d \<in> set (visible_input_dicts vis attr 0 es)"
  shows "\<exists>j < length es. idx d = int j \<and> vis (es ! j)
           \<and> attrs d = [(''name'', attr (es ! j) ''name''),
                         (''placeholder'', attr (es ! j) ''placeholder'')]"
proof -
  from assms obtain j e where "(j, e) \<in> set (zip [0 ..< 0 + length es] es)" and "vis e"
    and d: "d = \<lparr>idx = int j,
                 attrs = [(''name'', attr e ''name''), (''placeholder'', attr e ''placeholder'')]\<rparr>"
    by (auto simp: visible_input_dicts_def)
  then have "j < length es" and "e = es ! j"
    by (auto simp: set_zip)
  with \<open>vis e\<close> d show ?thesis by auto
qed

lemma list_getitem_nat: "j < length xs \<Longrightarrow> list_getitem xs (int j) = Inr (xs ! j)"
  by (simp add: list_getitem_def)


text \<open>
  C4 (amended). On a page whose answers do not change while the list is read, the
  dictionaries built by \<open>match_clickable\<close> and \<open>match_input\<close> describe the visible
  elements only, all of them and in order, and the \<open>idx\<close> of a dictionary is the position
  of its element in the whole list handed over, hidden elements counted: it is that
  whole list which \<open>elements[idx]\<close> reads, so the \<open>idx\<close> of a dictionary leads back to
  the visible element the dictionary describes.
\<close>

theorem dicts_carry_unfiltered_positions:
  assumes "\<And>e. el_is_displayed E e w = (Inr (vis e), w)"
    and "\<And>e. el_text E e w = (Inr (txt e), w)"
    and "\<And>e n. el_get_attribute E e n w = (Inr (attr e n), w)"
  shows "fst (clickable_dicts E 0 es \<lparr>world = w, trace = tr\<rparr>)
           = Inr (visible_clickable_dicts vis txt 0 es)
     \<and> fst (input_dicts E 0 es \<lparr>world = w, trace = tr\<rparr>)
           = Inr (visible_input_dicts vis attr 0 es)
     \<and> map idx (visible_clickable_dicts vis txt 0 es)
           = map int (filter (\<lambda>j. vis (es ! j)) [0 ..< length es])
     \<and> map idx (visible_input_dicts vis attr 0 es)
           = map int (filter (\<lambda>j. vis (es ! j)) [0 ..< length es])
     \<and> (\<forall>d \<in> set (visible_clickable_dicts vis txt 0 es).
           \<exists>e. list_getitem es (idx d) = Inr e \<and> vis e \<and> attrs d = [(''text'', Some (txt e))])
     \<and> (\<forall>d \<in> set (visible_input_dicts vis attr 0 es).
           \<exists>e. list_getitem es (idx d) = Inr e \<and> vis e
             \<and> attrs d = [(''name'', attr e ''name''), (''placeholder'', attr e ''placeholder'')])"
proof (intro conjI ballI)
  show "fst (clickable_dicts E 0 es \<lparr>world = w, trace = tr\<rparr>)
          = Inr (visible_clickable_dicts vis txt 0 es)"
    by (simp add: clickable_dicts_stable [OF assms(1,2)])
  show "fst (input_dicts E 0 es \<lparr>world = w, trace = tr\<rparr>)
          = Inr (visible_input_dicts vis attr 0 es)"
    by (simp add: input_dicts_stable [OF assms(1,3)])
  show "map idx (visible_clickable_dicts vis txt 0 es)
          = map int (filter (\<lambda>j. vis (es ! j)) [0 ..< length es])"
    by (rule idx_visible_clickable_dicts)
  show "map idx (visible_input_dicts vis attr 0 es)
          = map int (filter (\<lambda>j. vis (es ! j)) [0 ..< length es])"
    by (rule idx_visible_input_dicts)
next
  fix d assume "d \<in> set (visible_clickable_dicts vis txt 0 es)"
  then obtain j where "j < length es" "idx d = int j" "vis (es ! j)"
    "attrs d = [(''text'', Some (txt (es ! j)))]"
    by (blast dest: member_visible_clickable_dicts)
  then show "\<exists>e. list_getitem es (idx d) = Inr e \<and> vis e \<and> attrs d = [(''text'', Some (txt e))]"
    by (simp add: list_getitem_nat)
next
  fix d assume "d \<in> set (visible_input_dicts vis attr 0 es)"
  then obtain j where "j < length es" "idx d = int j" "vis (es ! j)"
    "attrs d = [(''name'', attr (es ! j) ''name''), (''placeholder'', attr (es ! j) ''placeholder'')]"
    by (blast dest: member_visible_input_dicts)
  then show "\<exists>e. list_getitem es (idx d) = Inr e \<and> vis e
      \<and> attrs d = [(''name'', attr e ''name''), (''placeholder'', attr e ''placeholder'')]"
    by (simp add: list_getitem_nat)
qed

theorem dicts_carry_unfiltered_positions_witness:
  "fst (clickable_dicts (stub_env demo_els demo_vis 0 scripted) 0
          [WebElement ''s'' ''hidden'', WebElement ''s'' ''accept'', WebElement ''s'' ''search'']
          (start []))
     = Inr [\<lparr>idx = 1, attrs = [(''text'', Some ''accept'')]\<rparr>,
            \<lparr>idx = 2, attrs = [(''text'', Some ''search'')]\<rparr>]
   \<and> fst (input_dicts (stub_env demo_els demo_vis 0 scripted) 0
          [WebElement ''s'' ''hidden'', WebElement ''s'' ''accept'', WebElement ''s'' ''search'']
          (start []))
     = Inr [\<lparr>idx = 1, attrs = [(''name'', Some ''name''), (''placeholder'', Some ''placeholder'')]\<rparr>,
            \<lparr>idx = 2, attrs = [(''name'', Some ''name''), (''placeholder'', Some ''placeholder'')]\<rparr>]
   \<and> list_getitem
         [WebElement ''s'' ''hidden'', WebElement ''s'' ''accept'', WebElement ''s'' ''search''] 2
       = Inr (WebElement ''s'' ''search'')"
proof -
  let ?E = "stub_env demo_els demo_vis 0 scripted :: WebAction list env"
  let ?es = "[WebElement ''s'' ''hidden'', WebElement ''s'' ''accept'', WebElement ''s'' ''search'']"
  let ?txt = "\<lambda>e. case e of WebElement sid eid \<Rightarrow> eid"
  let ?attr = "\<lambda>e n. Some n :: string option"
  have h1: "\<And>e. el_is_displayed ?E e [] = (Inr (demo_vis e), [])"
    and h2: "\<And>e. el_text ?E e [] = (Inr (?txt e), [])"
    and h3: "\<And>e n. el_get_attribute ?E e n [] = (Inr (?attr e n), [])"
    by (simp_all add: stub_env_def)
  from dicts_carry_unfiltered_positions [of ?E "[]" demo_vis ?txt ?attr ?es "[]", OF h1 h2 h3]
  show ?thesis
    by (simp add: start_def visible_clickable_dicts_def visible_input_dicts_def list_getitem_def
        upt_conv_Cons del: upt_Suc)
qed

text \<open>
  The claim as written fails on the second half: of a hidden link followed by a visible
  button the only dictionary carries \<open>idx = 1\<close>, the position in the whole list, and not
  \<open>0\<close>, the position among the visible ones; read against the visible ones alone the
  index is out of range.
\<close>

theorem dicts_carry_unfiltered_positions_counterexample:
  "fst (clickable_dicts (stub_env demo_els demo_vis 0 scripted) 0
          [WebElement ''s'' ''hidden'', WebElement ''s'' ''accept''] (start []))
     = Inr [\<lparr>idx = 1, attrs = [(''text'', Some ''accept'')]\<rparr>]
   \<and> list_getitem (filter demo_vis [WebElement ''s'' ''hidden'', WebElement ''s'' ''accept'']) 1
       = Inl IndexError
   \<and> list_getitem [WebElement ''s'' ''hidden'', WebElement ''s'' ''accept''] 1
       = Inr (WebElement ''s'' ''accept'')"
  by (simp add: run_defs)

text \<open>
  C3 (amended). \<open>match_element_idx\<close> returns the index the service answered, whatever
  it is, and raises only what the call to the service raises: it never compares the
  index with the list of dictionaries. \<open>match_clickable\<close> and \<open>match_input\<close> then read
  the whole element list at that index, so an exception arises exactly when the index
  lies outside \<open>[-len(elements), len(elements))\<close>, and it is an \<open>IndexError\<close>; a negative
  index inside these bounds selects an element counted from the end.
\<close>

theorem resolver_returns_service_index:
  "(\<forall>i w'. ai_parse_index E t ds (world s) = (Inr i, w')
       \<longrightarrow> fst (match_element_idx E ds t s) = Inr i)
   \<and> (\<forall>m w'. ai_parse_index E t ds (world s) = (Inl m, w')
       \<longrightarrow> fst (match_element_idx E ds t s) = Inl (Raised_by_service m))
   \<and> (\<forall>ds' s1 i w'. clickable_dicts E 0 es s = (Inr ds', s1)
          \<and> ai_parse_index E t ds' (world s1) = (Inr i, w')
       \<longrightarrow> fst (match_clickable E es t s) = list_getitem es i)
   \<and> (\<forall>ds' s1 i w'. input_dicts E 0 es s = (Inr ds', s1)
          \<and> ai_parse_index E t ds' (world s1) = (Inr i, w')
       \<longrightarrow> fst (match_input E es t s) = list_getitem es i)
   \<and> (\<forall>i. (list_getitem es i = Inl IndexError)
          = (i < - int (length es) \<or> int (length es) \<le> i))
   \<and> (\<forall>i. - int (length es) \<le> i \<and> i < 0
       \<longrightarrow> list_getitem es i = Inr (es ! nat (int (length es) + i)))"
  by (auto simp: match_element_idx_def match_clickable_def match_input_def service_call_def
      seq_def ret_def raise_def list_getitem_def split: sum.splits)

theorem resolver_returns_service_index_witness:
  "fst (match_element_idx (stub_env demo_els demo_vis (- 1) scripted)
          [\<lparr>idx = 0, attrs = [(''text'', Some ''accept'')]\<rparr>] ''Accept cookies'' (start []))
     = Inr (- 1)
   \<and> fst (match_clickable (stub_env demo_els demo_vis (- 1) scripted)
          [WebElement ''s'' ''accept'', WebElement ''s'' ''hidden''] ''Accept cookies'' (start []))
     = Inr (WebElement ''s'' ''hidden'')
   \<and> list_getitem [WebElement ''s'' ''accept'', WebElement ''s'' ''hidden''] 2 = Inl IndexError"
  using resolver_returns_service_index
    [of "stub_env demo_els demo_vis (- 1) scripted" "''Accept cookies''"
      "[\<lparr>idx = 0, attrs = [(''text'', Some ''accept'')]\<rparr>]" "start []"
      "[WebElement ''s'' ''accept'', WebElement ''s'' ''hidden'']"]
  by (simp add: run_defs)

text \<open>
  The claim as written fails: with one dictionary the only index in range is \<open>0\<close>, the
  service answers \<open>1\<close>, and the resolver returns \<open>1\<close> with no error; \<open>match_clickable\<close>
  then selects the hidden link, which no dictionary describes.
\<close>

theorem resolver_returns_service_index_counterexample:
  "fst (clickable_dicts (stub_env demo_els demo_vis 1 scripted) 0
          [WebElement ''s'' ''accept'', WebElement ''s'' ''hidden''] (start []))
     = Inr [\<lparr>idx = 0, attrs = [(''text'', Some ''accept'')]\<rparr>]
   \<and> fst (match_element_idx (stub_env demo_els demo_vis 1 scripted)
          [\<lparr>idx = 0, attrs = [(''text'', Some ''accept'')]\<rparr>] ''Accept cookies'' (start []))
     = Inr 1
   \<and> fst (match_clickable (stub_env demo_els demo_vis 1 scripted)
          [WebElement ''s'' ''accept'', WebElement ''s'' ''hidden''] ''Accept cookies'' (start []))
     = Inr (WebElement ''s'' ''hidden'')"
  by (simp add: run_defs)

lemma tick_execute_raise:
  assumes "get_web_action E d (snd (sleep E 200 s)) = (Inr a, s1)"
    and "execute_web_action E a s1 = (Inl e, s2)"
  shows "tick E d s = (Inl e, s2)"
proof -
  from assms(1) have "get_web_action E d
      \<lparr>world = time_sleep E 200 (world s), trace = trace s @ [Ev_sleep 200]\<rparr> = (Inr a, s1)"
    by (simp add: sleep_def)
  then show ?thesis
    by (simp add: tick_def seq_def sleep_def assms(2))
qed

lemma run_raise:
  assumes "completed_ticks E d k s = Some sk" and "k < 15" and "tick E d sk = (Inl e, s')"
  shows "perform_web_action E d s = (Inl e, s')"
proof -
  have "perform_loop E d 0 s = perform_loop E d (0 + k) sk"
    using assms(1) by (rule loop_completed) (use assms(2) in \<open>simp add: max_attempts_def\<close>)
  also have "\<dots> = (Inl e, s')"
    using assms(2,3) by (intro loop_raise) (simp_all add: max_attempts_def)
  finally show ?thesis by (simp add: perform_web_action_def)
qed

lemma run_none:
  assumes "completed_ticks E d k s = Some sk" and "k < 15"
    and "tick E d sk = (Inr (a, m), s')" and "action a = Member NONE"
  shows "perform_web_action E d s = (Inr (termination_message a), s')"
proof -
  have "perform_loop E d 0 s = perform_loop E d (0 + k) sk"
    using assms(1) by (rule loop_completed) (use assms(2) in \<open>simp add: max_attempts_def\<close>)
  also have "\<dots> = (Inr (termination_message a), s')"
    using assms(2,3,4) by (intro loop_none) (simp_all add: max_attempts_def)
  finally show ?thesis by (simp add: perform_web_action_def)
qed

lemma run_exhausted:
  assumes "completed_ticks E d 15 s = Some t"
  shows "perform_web_action E d s = (Inr exhausted, t)"
proof -
  have "perform_loop E d 0 s = perform_loop E d (0 + 15) t"
    using assms by (rule loop_completed) (simp add: max_attempts_def)
  also have "\<dots> = (Inr exhausted, t)"
    by (rule loop_exhausted) (simp add: max_attempts_def)
  finally show ?thesis by (simp add: perform_web_action_def)
qed

lemma open_web_page_result:
  "fst (open_web_page E url s) =
     (case fst (drv_get E url (world s)) of
        Inl m \<Rightarrow> Inl (Raised_by_driver m)
      | Inr u \<Rightarrow> Inr ''Web page opened. You may now perform actions.'')"
  by (simp add: open_web_page_def seq_def driver_call_def ret_def split: prod.splits sum.splits)

text \<open>
  C5 (amended). Explicit termination and exhaustion make \<open>perform_web_action\<close> return
  one string. An error does not: whatever a tick raises (a failing capture, a failing
  call of the service, the \<open>IndexError\<close> of the subscript, the \<open>ValueError\<close> of an
  unsupported action) leaves \<open>perform_web_action\<close> as that exception, in the state in
  which it was raised, since the source has no handler. \<open>open_web_page\<close> returns its
  fixed confirmation when the navigation succeeds, and the exception of the driver
  leaves it when the navigation fails.
\<close>

theorem errors_leave_as_exceptions:
  "(\<forall>k sk e s'. completed_ticks E d k s = Some sk \<and> k < 15 \<and> tick E d sk = (Inl e, s')
      \<longrightarrow> perform_web_action E d s = (Inl e, s'))
   \<and> (\<forall>k sk a m s'. completed_ticks E d k s = Some sk \<and> k < 15
        \<and> tick E d sk = (Inr (a, m), s') \<and> action a = Member NONE
      \<longrightarrow> perform_web_action E d s = (Inr (termination_message a), s'))
   \<and> (\<forall>t. completed_ticks E d 15 s = Some t
      \<longrightarrow> perform_web_action E d s = (Inr exhausted, t))
   \<and> (\<forall>m w'. drv_get E url (world s) = (Inl m, w')
      \<longrightarrow> fst (open_web_page E url s) = Inl (Raised_by_driver m))
   \<and> (\<forall>w'. drv_get E url (world s) = (Inr (), w')
      \<longrightarrow> fst (open_web_page E url s) = Inr ''Web page opened. You may now perform actions.'')"
  by (auto simp: open_web_page_result intro: run_raise run_none run_exhausted)

theorem errors_leave_as_exceptions_witness:
  "perform_web_action (stub_env demo_els demo_vis 5 scripted) ''open the menu''
       (start [decision CLICK ''Menu'' [] []])
     = (Inl IndexError,
        \<lparr>world = [],
         trace = [Ev_sleep 200, Ev_find_element ''body'', Ev_screenshot (WebElement ''s'' ''body''),
           Ev_parse_action ''open the menu'' ''data:image/png;base64,iVBORw0KGgo='',
           Ev_find_elements ''button'', Ev_find_elements ''a'',
           Ev_is_displayed (WebElement ''s'' ''accept''), Ev_text (WebElement ''s'' ''accept''),
           Ev_is_displayed (WebElement ''s'' ''hidden''),
           Ev_parse_index ''Menu'' [\<lparr>idx = 0, attrs = [(''text'', Some ''accept'')]\<rparr>]]\<rparr>)
   \<and> fst (open_web_page (stub_env demo_els demo_vis 5 scripted) ''https://example.com''
          (start [decision CLICK ''Menu'' [] []]))
       = Inr ''Web page opened. You may now perform actions.''"
proof -
  let ?E = "stub_env demo_els demo_vis 5 scripted"
  let ?d = "''open the menu''"
  let ?s = "start [decision CLICK ''Menu'' [] []]"
  let ?s' = "\<lparr>world = [] :: WebAction list,
         trace = [Ev_sleep 200, Ev_find_element ''body'', Ev_screenshot (WebElement ''s'' ''body''),
           Ev_parse_action ''open the menu'' ''data:image/png;base64,iVBORw0KGgo='',
           Ev_find_elements ''button'', Ev_find_elements ''a'',
           Ev_is_displayed (WebElement ''s'' ''accept''), Ev_text (WebElement ''s'' ''accept''),
           Ev_is_displayed (WebElement ''s'' ''hidden''),
           Ev_parse_index ''Menu'' [\<lparr>idx = 0, attrs = [(''text'', Some ''accept'')]\<rparr>]]\<rparr>"
  note inst = errors_leave_as_exceptions [of ?E ?d ?s "''https://example.com''"]
  have h1: "completed_ticks ?E ?d 0 ?s = Some ?s \<and> (0::nat) < 15 \<and> tick ?E ?d ?s = (Inl IndexError, ?s')"
    by (simp add: run_defs)
  have h2: "drv_get ?E ''https://example.com'' (world ?s) = (Inr (), world ?s)"
    by (simp add: stub_env_def)
  from inst [THEN conjunct1, rule_format, OF h1]
    inst [THEN conjunct2, THEN conjunct2, THEN conjunct2, THEN conjunct2, rule_format, OF h2]
  show ?thesis by simp
qed

text \<open>
  The claim as written fails: a \<open>TYPE_TEXT\<close> decision on a page without an input field
  makes \<open>perform_web_action\<close> raise \<open>IndexError\<close> instead of returning a string, and a
  navigation that fails makes \<open>open_web_page\<close> raise the error of the driver.
\<close>

theorem errors_leave_as_exceptions_counterexample:
  "fst (perform_web_action (stub_env no_els demo_vis 0 scripted) ''search for laptops''
          (start [decision TYPE_TEXT ''search box'' ''laptops'' []]))
     = Inl IndexError
   \<and> fst (open_web_page offline_env ''https://example.com'' (start []))
     = Inl (Raised_by_driver ''net::ERR_INTERNET_DISCONNECTED'')"
  by (simp add: run_defs offline_env_def open_web_page_def)

lemma match_clickable_empty:
  "match_clickable E [] t s =
     (case ai_parse_index E t [] (world s) of
        (Inl m, w') \<Rightarrow> (Inl (Raised_by_service m), \<lparr>world = w', trace = trace s @ [Ev_parse_index t []]\<rparr>)
      | (Inr i, w') \<Rightarrow> (Inl IndexError, \<lparr>world = w', trace = trace s @ [Ev_parse_index t []]\<rparr>))"
  by (auto simp: match_clickable_def match_element_idx_def seq_def ret_def raise_def
      service_call_def list_getitem_def split: prod.splits sum.splits)

lemma match_input_empty:
  "match_input E [] t s =
     (case ai_parse_index E t [] (world s) of
        (Inl m, w') \<Rightarrow> (Inl (Raised_by_service m), \<lparr>world = w', trace = trace s @ [Ev_parse_index t []]\<rparr>)
      | (Inr i, w') \<Rightarrow> (Inl IndexError, \<lparr>world = w', trace = trace s @ [Ev_parse_index t []]\<rparr>))"
  by (auto simp: match_input_def match_element_idx_def seq_def ret_def raise_def
      service_call_def list_getitem_def split: prod.splits sum.splits)

lemma execute_click_empty:
  assumes "action a = Member CLICK"
    and "drv_find_elements E ''button'' (world s) = (Inr [], w1)"
    and "drv_find_elements E ''a'' w1 = (Inr [], w2)"
  shows "execute_web_action E a s =
     (case ai_parse_index E (target a) [] w2 of
        (Inl m, w') \<Rightarrow> (Inl (Raised_by_service m),
           \<lparr>world = w', trace = trace s @ [Ev_find_elements ''button'', Ev_find_elements ''a'',
                                            Ev_parse_index (target a) []]\<rparr>)
      | (Inr i, w') \<Rightarrow> (Inl IndexError,
           \<lparr>world = w', trace = trace s @ [Ev_find_elements ''button'', Ev_find_elements ''a'',
                                            Ev_parse_index (target a) []]\<rparr>))"
  by (simp add: execute_web_action_def assms seq_def driver_call_def match_clickable_empty
      split: prod.splits sum.splits)

lemma execute_type_empty:
  assumes "action a = Member TYPE_TEXT \<or> action a = Member TYPE_ENTER"
    and "drv_find_elements E ''input'' (world s) = (Inr [], w1)"
  shows "execute_web_action E a s =
     (case ai_parse_index E (target a) [] w1 of
        (Inl m, w') \<Rightarrow> (Inl (Raised_by_service m),
           \<lparr>world = w', trace = trace s @ [Ev_find_elements ''input'', Ev_parse_index (target a) []]\<rparr>)
      | (Inr i, w') \<Rightarrow> (Inl IndexError,
           \<lparr>world = w', trace = trace s @ [Ev_find_elements ''input'', Ev_parse_index (target a) []]\<rparr>))"
  using assms(1)
  by (auto simp: execute_web_action_def assms(2) seq_def driver_call_def match_input_empty
      split: prod.splits sum.splits)

text \<open>
  C6 (amended). When the driver finds no element of the required tag at all (neither
  \<open>button\<close> nor \<open>a\<close> for \<open>CLICK\<close>, no \<open>input\<close> for the two type actions),
  \<open>execute_web_action\<close> still asks the service for an index, with an empty list of
  dictionaries, and then raises: \<open>IndexError\<close> whatever index comes back, or the error of
  the service call. No \<open>click\<close> and no \<open>send_keys\<close> is made, and the exception leaves
  \<open>perform_web_action\<close> from the tick in which it arose, with no retry. Nothing is
  promised when elements exist and all are hidden: the index is then read against the
  whole list.
\<close>

theorem empty_pool_raises:
  "(action a = Member CLICK
      \<and> drv_find_elements E ''button'' (world s) = (Inr [], w1)
      \<and> drv_find_elements E ''a'' w1 = (Inr [], w2)
    \<longrightarrow> (fst (execute_web_action E a s) = Inl IndexError
           \<or> (\<exists>m. fst (execute_web_action E a s) = Inl (Raised_by_service m)))
        \<and> calls is_action_call (snd (execute_web_action E a s)) = calls is_action_call s
        \<and> calls is_resolution (snd (execute_web_action E a s)) = calls is_resolution s + 1)
   \<and> ((action a = Member TYPE_TEXT \<or> action a = Member TYPE_ENTER)
      \<and> drv_find_elements E ''input'' (world s) = (Inr [], w1)
    \<longrightarrow> (fst (execute_web_action E a s) = Inl IndexError
           \<or> (\<exists>m. fst (execute_web_action E a s) = Inl (Raised_by_service m)))
        \<and> calls is_action_call (snd (execute_web_action E a s)) = calls is_action_call s
        \<and> calls is_resolution (snd (execute_web_action E a s)) = calls is_resolution s + 1)
   \<and> (\<forall>k sk s1 e s2. completed_ticks E d k s0 = Some sk \<and> k < 15
        \<and> get_web_action E d (snd (sleep E 200 sk)) = (Inr a, s1)
        \<and> execute_web_action E a s1 = (Inl e, s2)
      \<longrightarrow> perform_web_action E d s0 = (Inl e, s2))"
proof (intro conjI impI allI)
  assume h: "action a = Member CLICK
      \<and> drv_find_elements E ''button'' (world s) = (Inr [], w1)
      \<and> drv_find_elements E ''a'' w1 = (Inr [], w2)"
  have eq: "execute_web_action E a s =
     (case ai_parse_index E (target a) [] w2 of
        (Inl m, w') \<Rightarrow> (Inl (Raised_by_service m),
           \<lparr>world = w', trace = trace s @ [Ev_find_elements ''button'', Ev_find_elements ''a'',
                                            Ev_parse_index (target a) []]\<rparr>)
      | (Inr i, w') \<Rightarrow> (Inl IndexError,
           \<lparr>world = w', trace = trace s @ [Ev_find_elements ''button'', Ev_find_elements ''a'',
                                            Ev_parse_index (target a) []]\<rparr>))"
    using h execute_click_empty [of a E s w1 w2] by simp
  show "fst (execute_web_action E a s) = Inl IndexError
      \<or> (\<exists>m. fst (execute_web_action E a s) = Inl (Raised_by_service m))"
    unfolding eq by (simp split: prod.splits sum.splits)
  show "calls is_action_call (snd (execute_web_action E a s)) = calls is_action_call s"
    unfolding eq by (simp add: calls_def split: prod.splits sum.splits)
  show "calls is_resolution (snd (execute_web_action E a s)) = calls is_resolution s + 1"
    unfolding eq by (simp add: calls_def split: prod.splits sum.splits)
next
  assume h: "(action a = Member TYPE_TEXT \<or> action a = Member TYPE_ENTER)
      \<and> drv_find_elements E ''input'' (world s) = (Inr [], w1)"
  have eq: "execute_web_action E a s =
     (case ai_parse_index E (target a) [] w1 of
        (Inl m, w') \<Rightarrow> (Inl (Raised_by_service m),
           \<lparr>world = w', trace = trace s @ [Ev_find_elements ''input'', Ev_parse_index (target a) []]\<rparr>)
      | (Inr i, w') \<Rightarrow> (Inl IndexError,
           \<lparr>world = w', trace = trace s @ [Ev_find_elements ''input'', Ev_parse_index (target a) []]\<rparr>))"
    using h execute_type_empty [of a E s w1] by simp
  show "fst (execute_web_action E a s) = Inl IndexError
      \<or> (\<exists>m. fst (execute_web_action E a s) = Inl (Raised_by_service m))"
    unfolding eq by (simp split: prod.splits sum.splits)
  show "calls is_action_call (snd (execute_web_action E a s)) = calls is_action_call s"
    unfolding eq by (simp add: calls_def split: prod.splits sum.splits)
  show "calls is_resolution (snd (execute_web_action E a s)) = calls is_resolution s + 1"
    unfolding eq by (simp add: calls_def split: prod.splits sum.splits)
next
  fix k sk s1 e s2
  assume h: "completed_ticks E d k s0 = Some sk \<and> k < 15
        \<and> get_web_action E d (snd (sleep E 200 sk)) = (Inr a, s1)
        \<and> execute_web_action E a s1 = (Inl e, s2)"
  have "tick E d sk = (Inl e, s2)"
    using h by (auto intro: tick_execute_raise)
  then show "perform_web_action E d s0 = (Inl e, s2)"
    using h by (auto intro: run_raise)
qed

theorem empty_pool_raises_witness:
  "execute_web_action (stub_env no_els demo_vis 0 scripted) (decision CLICK ''Sign in'' [] [])
       (start [])
     = (Inl IndexError,
        \<lparr>world = [], trace = [Ev_find_elements ''button'', Ev_find_elements ''a'',
                               Ev_parse_index ''Sign in'' []]\<rparr>)
   \<and> execute_web_action (stub_env no_els demo_vis 0 scripted)
       (decision TYPE_ENTER ''search box'' [] []) (start [])
     = (Inl IndexError,
        \<lparr>world = [], trace = [Ev_find_elements ''input'', Ev_parse_index ''search box'' []]\<rparr>)
   \<and> fst (perform_web_action (stub_env no_els demo_vis 0 scripted) ''sign in''
          (start [decision CLICK ''Sign in'' [] []])) = Inl IndexError"
proof -
  let ?E = "stub_env no_els demo_vis 0 scripted"
  let ?c = "decision CLICK ''Sign in'' [] []"
  let ?t = "decision TYPE_ENTER ''search box'' [] []"
  let ?s0 = "start [?c]"
  define s1 where "s1 = snd (get_web_action ?E ''sign in'' (snd (sleep ?E 200 ?s0)))"
  define s2 where "s2 = snd (execute_web_action ?E ?c s1)"
  have h1: "action ?c = Member CLICK
      \<and> drv_find_elements ?E ''button'' (world (start [])) = (Inr [], [])
      \<and> drv_find_elements ?E ''a'' [] = (Inr [], [])"
    by (simp add: decision_def stub_env_def start_def)
  have h2: "(action ?t = Member TYPE_TEXT \<or> action ?t = Member TYPE_ENTER)
      \<and> drv_find_elements ?E ''input'' (world (start [])) = (Inr [], [])"
    by (simp add: decision_def stub_env_def start_def)
  have h3: "completed_ticks ?E ''sign in'' 0 ?s0 = Some ?s0 \<and> (0::nat) < 15
        \<and> get_web_action ?E ''sign in'' (snd (sleep ?E 200 ?s0)) = (Inr ?c, s1)
        \<and> execute_web_action ?E ?c s1 = (Inl IndexError, s2)"
    unfolding s2_def s1_def by (simp add: run_defs)
  from empty_pool_raises [of ?c ?E "start []" "[]" "[]", THEN conjunct1, rule_format, OF h1]
    empty_pool_raises [of ?t ?E "start []" "[]", THEN conjunct2, THEN conjunct1, rule_format, OF h2]
    empty_pool_raises [of ?c ?E _ _ _ "''sign in''" ?s0, THEN conjunct2, THEN conjunct2,
      rule_format, OF h3]
  show ?thesis by (simp add: run_defs)
qed

text \<open>
  The claim as written fails: the page has one link and it is hidden, so no visible
  clickable exists; the service is asked with an empty list of dictionaries, answers
  \<open>0\<close>, and \<open>click\<close> is called on the hidden link. No error is raised by
  \<open>execute_web_action\<close>, which returns its message.
\<close>

theorem empty_pool_raises_counterexample:
  "execute_web_action (stub_env hidden_els demo_vis 0 scripted) (decision CLICK ''Sign in'' [] [])
       (start [])
     = (Inr (''Clicked the element: '' @ str_WebElement (WebElement ''s'' ''hidden'')),
        \<lparr>world = [], trace = [Ev_find_elements ''button'', Ev_find_elements ''a'',
                               Ev_is_displayed (WebElement ''s'' ''hidden''),
                               Ev_parse_index ''Sign in'' [],
                               Ev_click (WebElement ''s'' ''hidden'')]\<rparr>)"
  by (simp add: run_defs)

lemma match_clickable_stable:
  assumes "\<And>e. el_is_displayed E e w = (Inr (vis e), w)"
    and "\<And>e. el_text E e w = (Inr (txt e), w)"
    and "ai_parse_index E t (visible_clickable_dicts vis txt 0 es) w = (Inr i, w)"
    and "0 \<le> i" and "i < int (length es)"
  shows "match_clickable E es t \<lparr>world = w, trace = tr\<rparr> =
           (Inr (es ! nat i),
            \<lparr>world = w,
             trace = tr @ clickable_reads vis es
                       @ [Ev_parse_index t (visible_clickable_dicts vis txt 0 es)]\<rparr>)"
  by (simp add: match_clickable_def seq_def clickable_dicts_stable [OF assms(1,2)]
      match_element_idx_def service_call_def assms(3,4,5) list_getitem_def ret_def)

lemma match_input_stable:
  assumes "\<And>e. el_is_displayed E e w = (Inr (vis e), w)"
    and "\<And>e n. el_get_attribute E e n w = (Inr (attr e n), w)"
    and "ai_parse_index E t (visible_input_dicts vis attr 0 es) w = (Inr i, w)"
    and "0 \<le> i" and "i < int (length es)"
  shows "match_input E es t \<lparr>world = w, trace = tr\<rparr> =
           (Inr (es ! nat i),
            \<lparr>world = w,
             trace = tr @ input_reads vis es
                       @ [Ev_parse_index t (visible_input_dicts vis attr 0 es)]\<rparr>)"
  by (simp add: match_input_def seq_def input_dicts_stable [OF assms(1,2)]
      match_element_idx_def service_call_def assms(3,4,5) list_getitem_def ret_def)

text \<open>
  C8. On a page whose answers do not change while it is read, with \<open>els tag\<close> the
  elements the driver finds for a tag and \<open>pick\<close> the answer of the index service:
  a \<open>CLICK\<close> resolves its target among the buttons followed by the links and calls
  \<open>click\<close> on the element selected; \<open>TYPE_TEXT\<close> and \<open>TYPE_ENTER\<close> resolve theirs
  among the \<open>input\<close> elements, the first sends the content of the decision and returns
  a message made of that content and of the element, the second sends the Enter key;
  \<open>WAIT\<close> sleeps three seconds and returns "Waiting..." with no call to the driver or
  to the index service.
\<close>

theorem execute_web_action_by_kind:
  assumes "\<And>tag. drv_find_elements E tag w = (Inr (els tag), w)"
    and "\<And>e. el_is_displayed E e w = (Inr (vis e), w)"
    and "\<And>e. el_text E e w = (Inr (txt e), w)"
    and "\<And>e n. el_get_attribute E e n w = (Inr (attr e n), w)"
    and "\<And>t ds. ai_parse_index E t ds w = (Inr (pick t ds), w)"
    and "clickables = els ''button'' @ els ''a''"
    and "inputs = els ''input''"
    and "c = pick (target a) (visible_clickable_dicts vis txt 0 clickables)"
    and "i = pick (target a) (visible_input_dicts vis attr 0 inputs)"
  shows
    "(action a = Member CLICK \<and> 0 \<le> c \<and> c < int (length clickables)
        \<and> el_click E (clickables ! nat c) w = (Inr (), w')
      \<longrightarrow> execute_web_action E a \<lparr>world = w, trace = tr\<rparr> =
            (Inr (''Clicked the element: '' @ str_WebElement (clickables ! nat c)),
             \<lparr>world = w',
              trace = tr @ [Ev_find_elements ''button'', Ev_find_elements ''a'']
                @ clickable_reads vis clickables
                @ [Ev_parse_index (target a) (visible_clickable_dicts vis txt 0 clickables),
                   Ev_click (clickables ! nat c)]\<rparr>))
     \<and> (action a = Member TYPE_TEXT \<and> 0 \<le> i \<and> i < int (length inputs)
        \<and> el_send_keys E (inputs ! nat i) (Text (content a)) w = (Inr (), w')
      \<longrightarrow> execute_web_action E a \<lparr>world = w, trace = tr\<rparr> =
            (Inr (''Typed '' @ [CHR 0x27] @ content a @ [CHR 0x27] @ '' in the input field: ''
                    @ str_WebElement (inputs ! nat i)),
             \<lparr>world = w',
              trace = tr @ [Ev_find_elements ''input''] @ input_reads vis inputs
                @ [Ev_parse_index (target a) (visible_input_dicts vis attr 0 inputs),
                   Ev_send_keys (inputs ! nat i) (Text (content a))]\<rparr>))
     \<and> (action a = Member TYPE_ENTER \<and> 0 \<le> i \<and> i < int (length inputs)
        \<and> el_send_keys E (inputs ! nat i) Keys_RETURN w = (Inr (), w')
      \<longrightarrow> execute_web_action E a \<lparr>world = w, trace = tr\<rparr> =
            (Inr (''Pressed Enter in the input field: '' @ str_WebElement (inputs ! nat i)),
             \<lparr>world = w',
              trace = tr @ [Ev_find_elements ''input''] @ input_reads vis inputs
                @ [Ev_parse_index (target a) (visible_input_dicts vis attr 0 inputs),
                   Ev_send_keys (inputs ! nat i) Keys_RETURN]\<rparr>))
     \<and> (action a = Member WAIT
      \<longrightarrow> execute_web_action E a \<lparr>world = w, trace = tr\<rparr> =
            (Inr ''Waiting...'', \<lparr>world = time_sleep E 3000 w, trace = tr @ [Ev_sleep 3000]\<rparr>))"
proof (intro conjI impI)
  assume h: "action a = Member CLICK \<and> 0 \<le> c \<and> c < int (length clickables)
        \<and> el_click E (clickables ! nat c) w = (Inr (), w')"
  have m: "match_clickable E clickables (target a)
      \<lparr>world = w, trace = tr @ [Ev_find_elements ''button'', Ev_find_elements ''a'']\<rparr> =
        (Inr (clickables ! nat c),
         \<lparr>world = w,
          trace = (tr @ [Ev_find_elements ''button'', Ev_find_elements ''a''])
            @ clickable_reads vis clickables
            @ [Ev_parse_index (target a) (visible_clickable_dicts vis txt 0 clickables)]\<rparr>)"
    using h assms(5,8) by (intro match_clickable_stable assms(2,3)) simp_all
  show "execute_web_action E a \<lparr>world = w, trace = tr\<rparr> =
            (Inr (''Clicked the element: '' @ str_WebElement (clickables ! nat c)),
             \<lparr>world = w',
              trace = tr @ [Ev_find_elements ''button'', Ev_find_elements ''a'']
                @ clickable_reads vis clickables
                @ [Ev_parse_index (target a) (visible_clickable_dicts vis txt 0 clickables),
                   Ev_click (clickables ! nat c)]\<rparr>)"
    using h m
    by (simp add: execute_web_action_def seq_def driver_call_def assms(1) assms(6) [symmetric]
        ret_def)
next
  assume h: "action a = Member TYPE_TEXT \<and> 0 \<le> i \<and> i < int (length inputs)
        \<and> el_send_keys E (inputs ! nat i) (Text (content a)) w = (Inr (), w')"
  have m: "match_input E inputs (target a)
      \<lparr>world = w, trace = tr @ [Ev_find_elements ''input'']\<rparr> =
        (Inr (inputs ! nat i),
         \<lparr>world = w,
          trace = (tr @ [Ev_find_elements ''input'']) @ input_reads vis inputs
            @ [Ev_parse_index (target a) (visible_input_dicts vis attr 0 inputs)]\<rparr>)"
    using h assms(5,9) by (intro match_input_stable assms(2,4)) simp_all
  show "execute_web_action E a \<lparr>world = w, trace = tr\<rparr> =
            (Inr (''Typed '' @ [CHR 0x27] @ content a @ [CHR 0x27] @ '' in the input field: ''
                    @ str_WebElement (inputs ! nat i)),
             \<lparr>world = w',
              trace = tr @ [Ev_find_elements ''input''] @ input_reads vis inputs
                @ [Ev_parse_index (target a) (visible_input_dicts vis attr 0 inputs),
                   Ev_send_keys (inputs ! nat i) (Text (content a))]\<rparr>)"
    using h m
    by (simp add: execute_web_action_def seq_def driver_call_def assms(1) assms(7) [symmetric]
        ret_def)
next
  assume h: "action a = Member TYPE_ENTER \<and> 0 \<le> i \<and> i < int (length inputs)
        \<and> el_send_keys E (inputs ! nat i) Keys_RETURN w = (Inr (), w')"
  have m: "match_input E inputs (target a)
      \<lparr>world = w, trace = tr @ [Ev_find_elements ''input'']\<rparr> =
        (Inr (inputs ! nat i),
         \<lparr>world = w,
          trace = (tr @ [Ev_find_elements ''input'']) @ input_reads vis inputs
            @ [Ev_parse_index (target a) (visible_input_dicts vis attr 0 inputs)]\<rparr>)"
    using h assms(5,9) by (intro match_input_stable assms(2,4)) simp_all
  show "execute_web_action E a \<lparr>world = w, trace = tr\<rparr> =
            (Inr (''Pressed Enter in the input field: '' @ str_WebElement (inputs ! nat i)),
             \<lparr>world = w',
              trace = tr @ [Ev_find_elements ''input''] @ input_reads vis inputs
                @ [Ev_parse_index (target a) (visible_input_dicts vis attr 0 inputs),
                   Ev_send_keys (inputs ! nat i) Keys_RETURN]\<rparr>)"
    using h m
    by (simp add: execute_web_action_def seq_def driver_call_def assms(1) assms(7) [symmetric]
        ret_def)
next
  assume "action a = Member WAIT"
  then show "execute_web_action E a \<lparr>world = w, trace = tr\<rparr> =
      (Inr ''Waiting...'', \<lparr>world = time_sleep E 3000 w, trace = tr @ [Ev_sleep 3000]\<rparr>)"
    by (simp add: execute_web_action_def seq_def sleep_def ret_def)
qed


theorem execute_web_action_by_kind_witness:
  "execute_web_action (stub_env demo_els demo_vis 0 scripted)
       (decision TYPE_TEXT ''search box'' ''laptops'' []) (start [])
     = (Inr (''Typed '' @ [CHR 0x27] @ ''laptops'' @ [CHR 0x27] @ '' in the input field: ''
              @ str_WebElement (WebElement ''s'' ''search'')),
        \<lparr>world = [],
         trace = [Ev_find_elements ''input'', Ev_is_displayed (WebElement ''s'' ''search''),
           Ev_get_attribute (WebElement ''s'' ''search'') ''name'',
           Ev_get_attribute (WebElement ''s'' ''search'') ''placeholder'',
           Ev_parse_index ''search box''
             [\<lparr>idx = 0, attrs = [(''name'', Some ''name''), (''placeholder'', Some ''placeholder'')]\<rparr>],
           Ev_send_keys (WebElement ''s'' ''search'') (Text ''laptops'')]\<rparr>)
   \<and> execute_web_action (stub_env demo_els demo_vis 0 scripted)
       (decision CLICK ''Accept cookies'' [] []) (start [])
     = (Inr (''Clicked the element: '' @ str_WebElement (WebElement ''s'' ''accept'')),
        \<lparr>world = [],
         trace = [Ev_find_elements ''button'', Ev_find_elements ''a'',
           Ev_is_displayed (WebElement ''s'' ''accept''), Ev_text (WebElement ''s'' ''accept''),
           Ev_is_displayed (WebElement ''s'' ''hidden''),
           Ev_parse_index ''Accept cookies'' [\<lparr>idx = 0, attrs = [(''text'', Some ''accept'')]\<rparr>],
           Ev_click (WebElement ''s'' ''accept'')]\<rparr>)
   \<and> execute_web_action (stub_env demo_els demo_vis 0 scripted)
       (decision TYPE_ENTER ''search box'' [] []) (start [])
     = (Inr (''Pressed Enter in the input field: '' @ str_WebElement (WebElement ''s'' ''search'')),
        \<lparr>world = [],
         trace = [Ev_find_elements ''input'', Ev_is_displayed (WebElement ''s'' ''search''),
           Ev_get_attribute (WebElement ''s'' ''search'') ''name'',
           Ev_get_attribute (WebElement ''s'' ''search'') ''placeholder'',
           Ev_parse_index ''search box''
             [\<lparr>idx = 0, attrs = [(''name'', Some ''name''), (''placeholder'', Some ''placeholder'')]\<rparr>],
           Ev_send_keys (WebElement ''s'' ''search'') Keys_RETURN]\<rparr>)
   \<and> execute_web_action (stub_env demo_els demo_vis 0 scripted)
       (decision WAIT [] [] []) (start [])
     = (Inr ''Waiting...'', \<lparr>world = [], trace = [Ev_sleep 3000]\<rparr>)"
proof -
  let ?E = "stub_env demo_els demo_vis 0 scripted :: WebAction list env"
  let ?txt = "\<lambda>e. case e of WebElement sid eid \<Rightarrow> eid"
  let ?attr = "\<lambda>e n. Some n :: string option"
  let ?pick = "\<lambda>(t :: string) (ds :: element_dict list). 0 :: int"
  have h1: "\<And>tag. drv_find_elements ?E tag [] = (Inr (demo_els tag), [])"
    and h2: "\<And>e. el_is_displayed ?E e [] = (Inr (demo_vis e), [])"
    and h3: "\<And>e. el_text ?E e [] = (Inr (?txt e), [])"
    and h4: "\<And>e n. el_get_attribute ?E e n [] = (Inr (?attr e n), [])"
    and h5: "\<And>t ds. ai_parse_index ?E t ds [] = (Inr (?pick t ds), [])"
    by (simp_all add: stub_env_def)
  note inst = execute_web_action_by_kind [of ?E "[]" demo_els demo_vis ?txt ?attr ?pick,
      OF h1 h2 h3 h4 h5 refl refl refl refl, where w' = "[]" and tr = "[]"]
  have click: "el_click ?E e [] = (Inr (), [])"
    and keys: "el_send_keys ?E e k [] = (Inr (), [])" for e k
    by (simp_all add: stub_env_def)
  from inst [of "decision TYPE_TEXT ''search box'' ''laptops'' []"]
    inst [of "decision CLICK ''Accept cookies'' [] []"]
    inst [of "decision TYPE_ENTER ''search box'' [] []"]
    inst [of "decision WAIT [] [] []"]
  show ?thesis
    by (simp add: decision_def start_def click keys visible_clickable_dicts_def
        visible_input_dicts_def clickable_reads_def input_reads_def stub_env_def
        upt_conv_Cons del: upt_Suc)
qed

end
